theory Spec2Isabelle
  imports Main "HOL-Library.AList"
begin

section \<open>Data model\<close>

text \<open>
  The program is one Python module, \<^verbatim>\<open>ror_wikidata_claim_overlap.py\<close>. Its values are
  Python dictionaries and strings.

  \<^item> The claim spec is the dictionary read from the input file, claim identifier to claim
    name. Python dictionaries iterate in insertion order and the code iterates it
    (\<^verbatim>\<open>claims.items()\<close>, \<^verbatim>\<open>claims.values()\<close>), so it is an association list. Names and
    identifiers are strings, as the input format has them; nothing below needs the keys to
    be distinct.
  \<^item> A raw binding is a dictionary from variable name to an object with a \<^verbatim>\<open>value\<close> entry.
    Only lookups are made on it, so it is a map.
  \<^item> A normalized record is the dictionary
    \<^verbatim>\<open>{"wikidata_id": ..., <claim_name>: <value or None>, ...}\<close>; only lookups are made on it.
    \<open>None\<close> is a missing key, \<open>Some None\<close> is Python's \<^verbatim>\<open>None\<close>.
  \<^item> The per-page mapping and the aggregate are dictionaries from registry identifier to
    record whose iteration order reaches the output, so they are association lists;
    \<^verbatim>\<open>d[k] = v\<close> is \<^const>\<open>AList.update\<close>: it replaces the value in place when the key is
    there and appends the entry otherwise. Their keys are distinct, which a theorem assumes
    where it needs it.
\<close>

type_synonym claims = "(string \<times> string) list"
type_synonym raw_binding = "string \<rightharpoonup> (string \<rightharpoonup> string)"
type_synonym norm_record = "string \<rightharpoonup> string option"
type_synonym page_data = "(string \<times> norm_record) list"

datatype py_error =
    KeyError string
  | ValueError string
  | JSONDecodeError string
  | IOError string
  | RequestException string

text \<open>\<^verbatim>\<open>d[k]\<close> on a dictionary: \<^verbatim>\<open>KeyError\<close> when the key is missing.\<close>

definition subscript :: "(string \<rightharpoonup> 'v) \<Rightarrow> string \<Rightarrow> py_error + 'v" where
  "subscript d k = (case d k of None \<Rightarrow> Inl (KeyError k) | Some v \<Rightarrow> Inr v)"

abbreviation newline :: char where
  "newline \<equiv> CHR 0x0A"

section \<open>Query builder\<close>

text \<open>
  \<^verbatim>\<open>generate_sparql_query\<close>: the loop over \<^verbatim>\<open>claims.items()\<close> appends to two strings; the
  state of the loop is the pair (select clause, where clause).
\<close>

fun query_step :: "string \<times> string \<Rightarrow> string \<times> string \<Rightarrow> string \<times> string" where
  "query_step (claim_id, claim_name) (select_clause, where_clause) =
     (select_clause @ '' ?'' @ claim_name,
      where_clause @ [newline] @ ''  OPTIONAL { ?item wdt:'' @ claim_id @ '' ?'' @ claim_name
        @ '' }'')"

definition generate_sparql_query :: "claims \<Rightarrow> string" where
  "generate_sparql_query claims =
     (case fold query_step claims
             (''SELECT ?item ?rorID'', ''WHERE {'' @ [newline] @ ''  ?item wdt:P6782 ?rorID .'')
      of (select_clause, where_clause) \<Rightarrow>
        select_clause @ [newline] @ (where_clause @ [newline] @ ''}''))"

text \<open>The parts of the query named by the specification.\<close>

definition select_variable :: "string \<times> string \<Rightarrow> string" where
  "select_variable entry = '' ?'' @ snd entry"

definition optional_clause :: "string \<times> string \<Rightarrow> string" where
  "optional_clause entry =
     [newline] @ ''  OPTIONAL { ?item wdt:'' @ fst entry @ '' ?'' @ snd entry @ '' }''"

definition select_clause_of :: "string list \<Rightarrow> string" where
  "select_clause_of vars = ''SELECT ?item ?rorID'' @ concat vars"

definition where_clause_of :: "string list \<Rightarrow> string" where
  "where_clause_of optionals =
     ''WHERE {'' @ [newline] @ ''  ?item wdt:P6782 ?rorID .'' @ concat optionals
       @ [newline] @ ''}''"

section \<open>Paginated fetcher\<close>

text \<open>
  \<^verbatim>\<open>f"{limit}"\<close> of a Python \<^verbatim>\<open>int\<close>: decimal digits, with a minus sign when negative.
\<close>

definition digit_char :: "nat \<Rightarrow> char" where
  "digit_char d = ''0123456789'' ! d"

function str_nat :: "nat \<Rightarrow> string" where
  "str_nat n = (if n < 10 then [digit_char n] else str_nat (n div 10) @ [digit_char (n mod 10)])"
  by pat_completeness auto
termination
  by (relation "measure (\<lambda>n. n)") auto

declare str_nat.simps [simp del]

definition str_int :: "int \<Rightarrow> string" where
  "str_int i = (if i < 0 then CHR ''-'' # str_nat (nat (- i)) else str_nat (nat i))"

text \<open>
  The HTTP exchange. A request is what \<^verbatim>\<open>requests.get\<close> is given; the endpoint is a
  parameter of the model, a function from the request to what comes back:
  \<^verbatim>\<open>requests.get\<close> raising (\<open>NoReply\<close>), or a response with its status code and its body,
  \<open>None\<close> when the body is not JSON and otherwise the JSON object, read at the depth
  the code reads it: \<^verbatim>\<open>response.json()["results"]["bindings"]\<close>.
\<close>

record http_request =
  url :: string
  params :: "(string \<times> string) list"
  headers :: "(string \<times> string) list"

type_synonym json_body = "string \<rightharpoonup> (string \<rightharpoonup> raw_binding list)"

datatype http_reply =
    NoReply string
  | Reply nat "json_body option"

type_synonym endpoint = "http_request \<Rightarrow> http_reply"

text \<open>
  \<^verbatim>\<open>logger.error(f"<prefix>: {e}")\<close> is \<open>LogError prefix e\<close>; \<^verbatim>\<open>logger.info(msg)\<close> is
  \<open>LogInfo msg\<close>.
\<close>

datatype log_entry =
    LogError string py_error
  | LogInfo string

text \<open>\<^verbatim>\<open>if email:\<close> holds for a string that is neither \<^verbatim>\<open>None\<close> nor empty.\<close>

definition build_request :: "string \<Rightarrow> string \<Rightarrow> int \<Rightarrow> int \<Rightarrow> string option \<Rightarrow> http_request" where
  "build_request endpoint_url query limit offset email =
     (let full_query = query @ '' LIMIT '' @ str_int limit @ '' OFFSET '' @ str_int offset;
          headers0 = [(''User-Agent'', ''ror_wikidata_claim_overlap'')];
          headers1 = (case email of
                        None \<Rightarrow> headers0
                      | Some e \<Rightarrow> if e = [] then headers0 else headers0 @ [(''From'', e)])
      in \<lparr>url = endpoint_url,
          params = [(''query'', full_query), (''format'', ''json'')],
          headers = headers1\<rparr>)"

text \<open>
  \<^verbatim>\<open>execute_sparql_query\<close>. \<^verbatim>\<open>raise_for_status\<close> raises for a status code from 400 to 599.
  \<^verbatim>\<open>requests.get\<close>, \<^verbatim>\<open>raise_for_status\<close> and \<^verbatim>\<open>response.json()\<close> (since requests 2.27) raise
  subclasses of \<^verbatim>\<open>RequestException\<close>, which the handler logs and raises again; the \<^verbatim>\<open>KeyError\<close> of a
  missing \<^verbatim>\<open>results\<close> or \<^verbatim>\<open>bindings\<close> key passes the handler unlogged. The result is the
  requests sent, the log lines and the bindings or the exception.
\<close>

definition read_bindings :: "http_reply \<Rightarrow> py_error + raw_binding list" where
  "read_bindings reply =
     (case reply of
        NoReply msg \<Rightarrow> Inl (RequestException msg)
      | Reply status body \<Rightarrow>
          if 400 \<le> status \<and> status < 600 then Inl (RequestException ''HTTPError'')
          else (case body of
                  None \<Rightarrow> Inl (RequestException ''JSONDecodeError'')
                | Some json \<Rightarrow>
                    (case subscript json ''results'' of
                       Inl e \<Rightarrow> Inl e
                     | Inr results \<Rightarrow> subscript results ''bindings'')))"

definition execute_sparql_query ::
  "endpoint \<Rightarrow> string \<Rightarrow> string \<Rightarrow> int \<Rightarrow> int \<Rightarrow> string option
     \<Rightarrow> http_request list \<times> log_entry list \<times> (py_error + raw_binding list)" where
  "execute_sparql_query net endpoint_url query limit offset email =
     (let request = build_request endpoint_url query limit offset email in
      case read_bindings (net request) of
        Inl (RequestException msg) \<Rightarrow>
          ([request],
           [LogError ''Error executing SPARQL query'' (RequestException msg)],
           Inl (RequestException msg))
      | Inl e \<Rightarrow> ([request], [], Inl e)
      | Inr bindings \<Rightarrow> ([request], [], Inr bindings))"

section \<open>Result normalizer\<close>

text \<open>
  \<^verbatim>\<open>s.split("/")\<close> for a one-character separator: the list of the pieces between
  separators, never empty; \<^verbatim>\<open>[-1]\<close> is its last element.
\<close>

fun split_on :: "char \<Rightarrow> string \<Rightarrow> string list" where
  "split_on sep [] = [[]]"
| "split_on sep (c # cs) =
     (if c = sep then [] # split_on sep cs
      else (case split_on sep cs of
              [] \<Rightarrow> [[c]]
            | w # ws \<Rightarrow> (c # w) # ws))"

text \<open>\<^verbatim>\<open>result.get(claim_name, {}).get("value")\<close>.\<close>

definition get_value :: "raw_binding \<Rightarrow> string \<Rightarrow> string option" where
  "get_value result claim_name =
     (case result claim_name of
        None \<Rightarrow> None
      | Some obj \<Rightarrow> obj ''value'')"

text \<open>
  The dictionary display
  \<^verbatim>\<open>{"wikidata_id": wikidata_id, **{claim_name: ... for claim_name in claims.values()}}\<close>:
  the key \<^verbatim>\<open>wikidata_id\<close> is set first and the claim names are set after it, in the order
  of the spec, each overwriting an entry of the same key.
\<close>

definition make_record :: "string \<Rightarrow> raw_binding \<Rightarrow> claims \<Rightarrow> norm_record" where
  "make_record wikidata_id result claims =
     fold (\<lambda>claim_name record. record(claim_name \<mapsto> get_value result claim_name))
       (map snd claims) [''wikidata_id'' \<mapsto> Some wikidata_id]"

fun process_loop :: "raw_binding list \<Rightarrow> claims \<Rightarrow> page_data \<Rightarrow> py_error + page_data" where
  "process_loop [] claims processed_data = Inr processed_data"
| "process_loop (result # rest) claims processed_data =
     (case subscript result ''rorID'' of
        Inl e \<Rightarrow> Inl e
      | Inr ror_obj \<Rightarrow>
     (case subscript ror_obj ''value'' of
        Inl e \<Rightarrow> Inl e
      | Inr ror_id \<Rightarrow>
     (case subscript result ''item'' of
        Inl e \<Rightarrow> Inl e
      | Inr item_obj \<Rightarrow>
     (case subscript item_obj ''value'' of
        Inl e \<Rightarrow> Inl e
      | Inr uri \<Rightarrow>
          process_loop rest claims
            (AList.update ror_id (make_record (last (split_on CHR ''/'' uri)) result claims)
               processed_data)))))"

definition process_wikidata_results :: "raw_binding list \<Rightarrow> claims \<Rightarrow> py_error + page_data" where
  "process_wikidata_results results claims = process_loop results claims []"

section \<open>Worker\<close>

text \<open>
  \<^verbatim>\<open>worker\<close>: any exception of the fetch or of the transform is logged with the offset and
  replaced by the empty dictionary.
\<close>

definition worker ::
  "endpoint \<Rightarrow> string \<Rightarrow> string \<Rightarrow> claims \<Rightarrow> int \<Rightarrow> int \<Rightarrow> string option
     \<Rightarrow> http_request list \<times> log_entry list \<times> page_data" where
  "worker net endpoint_url query claims limit offset email =
     (case execute_sparql_query net endpoint_url query limit offset email of
        (sent, lg, Inl e) \<Rightarrow>
          (sent, lg @ [LogError (''Error in worker (offset '' @ str_int offset @ '')'') e], [])
      | (sent, lg, Inr results) \<Rightarrow>
          (case process_wikidata_results results claims of
             Inl e \<Rightarrow>
               (sent, lg @ [LogError (''Error in worker (offset '' @ str_int offset @ '')'') e],
                [])
           | Inr processed_data \<Rightarrow> (sent, lg, processed_data)))"

section \<open>CSV emitter\<close>

text \<open>
  A CSV row is the list handed to \<^verbatim>\<open>writer.writerow\<close>; a cell is a string or \<^verbatim>\<open>None\<close>.
  A written file is its path and its rows in the order written. \<^verbatim>\<open>os.path.join\<close> is the
  POSIX one.

  The file system is a parameter of the model, as two functions that say what a call gives,
  \<open>None\<close> when it returns and the exception when it raises: \<open>mk\<close> for
  \<^verbatim>\<open>os.makedirs(output_directory, exist_ok=True)\<close> and \<open>opn\<close> for
  \<^verbatim>\<open>open(output_file, "w", encoding="utf-8")\<close>. Python's \<^verbatim>\<open>IOError\<close> is \<^verbatim>\<open>OSError\<close>, of which
  \<^verbatim>\<open>FileNotFoundError\<close> is a subclass. \<^verbatim>\<open>os.makedirs\<close> of the empty path raises
  \<^verbatim>\<open>FileNotFoundError\<close> whatever the file system holds. Writing a row to a file that has been
  opened does not raise in the model.
\<close>

type_synonym cell = "string option"
type_synonym csv_file = "string \<times> cell list list"

definition path_join :: "string \<Rightarrow> string \<Rightarrow> string" where
  "path_join a b =
     (if (case b of [] \<Rightarrow> False | c # _ \<Rightarrow> c = CHR ''/'') then b
      else if a = [] \<or> last a = CHR ''/'' then a @ b
      else a @ ''/'' @ b)"

definition makedirs :: "(string \<Rightarrow> py_error option) \<Rightarrow> string \<Rightarrow> py_error option" where
  "makedirs mk dir = (if dir = [] then Some (IOError ''FileNotFoundError'') else mk dir)"

text \<open>\<^verbatim>\<open>if values[claim_name]:\<close> on a value that is a string or \<^verbatim>\<open>None\<close>.\<close>

fun truthy :: "string option \<Rightarrow> bool" where
  "truthy None = False"
| "truthy (Some s) = (s \<noteq> [])"

text \<open>
  The inner loop of \<^verbatim>\<open>generate_csv_files\<close> over \<^verbatim>\<open>data.items()\<close>; \<open>rows\<close> is what the file
  holds so far, kept when a lookup raises.
\<close>

fun write_rows :: "page_data \<Rightarrow> string \<Rightarrow> cell list list \<Rightarrow> cell list list \<times> py_error option" where
  "write_rows [] claim_name rows = (rows, None)"
| "write_rows ((ror_id, values) # rest) claim_name rows =
     (case subscript values claim_name of
        Inl e \<Rightarrow> (rows, Some e)
      | Inr v \<Rightarrow>
          if truthy v then
            (case subscript values ''wikidata_id'' of
               Inl e \<Rightarrow> (rows, Some e)
             | Inr wikidata_id \<Rightarrow>
                 write_rows rest claim_name (rows @ [[Some ror_id, wikidata_id, v]]))
          else write_rows rest claim_name rows)"

text \<open>
  The loop of \<^verbatim>\<open>generate_csv_files\<close> over \<^verbatim>\<open>claims.items()\<close>. When \<^verbatim>\<open>open\<close> raises, the claim
  gets no file and the loop ends; when a lookup raises inside the \<^verbatim>\<open>with\<close> block, the file keeps
  the rows written so far and the loop ends.
\<close>

fun generate_csv_loop ::
  "(string \<Rightarrow> py_error option) \<Rightarrow> page_data \<Rightarrow> string \<Rightarrow> claims
     \<Rightarrow> csv_file list \<times> log_entry list
     \<Rightarrow> (csv_file list \<times> log_entry list) \<times> py_error option" where
  "generate_csv_loop opn data output_directory [] st = (st, None)"
| "generate_csv_loop opn data output_directory ((claim_id, claim_name) # rest) (files, lg) =
     (let output_file = path_join output_directory (claim_name @ ''_mapping.csv'') in
      case opn output_file of
        Some e \<Rightarrow> ((files, lg), Some e)
      | None \<Rightarrow>
     (case write_rows data claim_name [[Some ''ROR ID'', Some ''Wikidata ID'', Some claim_name]] of
        (rows, Some e) \<Rightarrow> ((files @ [(output_file, rows)], lg), Some e)
      | (rows, None) \<Rightarrow>
          generate_csv_loop opn data output_directory rest
            (files @ [(output_file, rows)],
             lg @ [LogInfo (''Generated CSV file: '' @ output_file)])))"

text \<open>
  \<^verbatim>\<open>generate_csv_files\<close>: \<^verbatim>\<open>os.makedirs\<close> comes first, and when it raises no file is opened.
\<close>

definition generate_csv_files ::
  "(string \<Rightarrow> py_error option) \<Rightarrow> (string \<Rightarrow> py_error option) \<Rightarrow> page_data \<Rightarrow> string \<Rightarrow> claims
     \<Rightarrow> (csv_file list \<times> log_entry list) \<times> py_error option" where
  "generate_csv_files mk opn data output_directory claims =
     (case makedirs mk output_directory of
        Some e \<Rightarrow> (([], []), Some e)
      | None \<Rightarrow> generate_csv_loop opn data output_directory claims ([], []))"

section \<open>Driver\<close>

text \<open>
  \<^verbatim>\<open>parse_json_claims\<close>: the environment says what opening and decoding the file gives. The
  two handlers log \<^verbatim>\<open>json.JSONDecodeError\<close> and \<^verbatim>\<open>IOError\<close> and raise them again; any other
  exception passes unlogged. \<open>ValueError\<close> stands for the \<^verbatim>\<open>ValueError\<close>s that are not
  \<^verbatim>\<open>json.JSONDecodeError\<close>, such as the \<^verbatim>\<open>UnicodeDecodeError\<close> of a file that is not valid UTF-8.
\<close>

definition parse_json_claims ::
  "(string \<Rightarrow> py_error + claims) \<Rightarrow> string \<Rightarrow> log_entry list \<times> (py_error + claims)" where
  "parse_json_claims read_file file_path =
     (case read_file file_path of
        Inr claims \<Rightarrow> ([], Inr claims)
      | Inl (JSONDecodeError msg) \<Rightarrow>
          ([LogError ''Error parsing JSON file'' (JSONDecodeError msg)], Inl (JSONDecodeError msg))
      | Inl (IOError msg) \<Rightarrow>
          ([LogError ''Error reading file'' (IOError msg)], Inl (IOError msg))
      | Inl e \<Rightarrow> ([], Inl e))"

text \<open>
  \<^verbatim>\<open>range(start, stop, step)\<close> as a list: \<^verbatim>\<open>ValueError\<close> for a zero step, and otherwise the
  length CPython computes.
\<close>

definition range_len :: "int \<Rightarrow> int \<Rightarrow> int \<Rightarrow> nat" where
  "range_len start stop step =
     (if 0 < step then (if start < stop then nat ((stop - start - 1) div step + 1) else 0)
      else (if stop < start then nat ((start - stop - 1) div (- step) + 1) else 0))"

definition py_range :: "int \<Rightarrow> int \<Rightarrow> int \<Rightarrow> py_error + int list" where
  "py_range start stop step =
     (if step = 0 then Inl (ValueError ''range() arg 3 must not be zero'')
      else Inr (map (\<lambda>k. start + int k * step) [0..<range_len start stop step]))"

text \<open>\<^verbatim>\<open>d.update(other)\<close>: every item of \<open>other\<close>, in its order, is stored into \<open>d\<close>.\<close>

definition dict_update :: "('k \<times> 'v) list \<Rightarrow> ('k \<times> 'v) list \<Rightarrow> ('k \<times> 'v) list" where
  "dict_update d other = fold (\<lambda>(k, v) acc. AList.update k v acc) other d"

text \<open>The merge loop of \<^verbatim>\<open>main\<close>, from the empty dictionary.\<close>

definition merge_pages :: "('k \<times> 'v) list list \<Rightarrow> ('k \<times> 'v) list" where
  "merge_pages results = fold (\<lambda>result all_data. dict_update all_data result) results []"

record args =
  input_file :: string
  output_directory :: string
  endpoint_url :: string
  limit :: int
  offset :: int
  email :: "string option"

text \<open>
  The environment of a run: what reading the claims file gives, what the endpoint answers and
  what the file system does.
\<close>

record world =
  read_file :: "string \<Rightarrow> py_error + claims"
  net :: endpoint
  mkdir :: "string \<Rightarrow> py_error option"
  open_w :: "string \<Rightarrow> py_error option"

datatype pool_state = NotCreated | Closed

text \<open>
  What a run leaves behind: the requests sent and the log lines (those of the workers in the
  order of their pages: the interleaving of the five processes is not modelled), the files
  written, the pool, and the exception that leaves \<^verbatim>\<open>main\<close>, if any.
\<close>

record outcome =
  sent :: "http_request list"
  logged :: "log_entry list"
  written :: "csv_file list"
  pool :: pool_state
  uncaught :: "py_error option"

text \<open>
  The body of the \<^verbatim>\<open>try\<close> in \<^verbatim>\<open>main\<close>, after \<^verbatim>\<open>parse_arguments\<close> has returned the arguments:
  it gives the effects so far and the exception raised, if any. \<^verbatim>\<open>pool.map\<close> returns the workers' results in the
  order of the offsets.
\<close>

definition main_body :: "world \<Rightarrow> args \<Rightarrow> outcome" where
  "main_body w a =
     (case parse_json_claims (read_file w) (input_file a) of
        (lg0, Inl e) \<Rightarrow>
          \<lparr>sent = [], logged = lg0, written = [], pool = NotCreated, uncaught = Some e\<rparr>
      | (lg0, Inr claims) \<Rightarrow>
          (let query = generate_sparql_query claims in
           case py_range (offset a) (offset a + limit a * 20) (limit a) of
             Inl e \<Rightarrow>
               \<lparr>sent = [], logged = lg0, written = [], pool = Closed, uncaught = Some e\<rparr>
           | Inr offsets \<Rightarrow>
               (let results =
                      map (\<lambda>off. worker (net w) (endpoint_url a) query claims (limit a) off
                                   (email a)) offsets;
                    all_data = merge_pages (map (\<lambda>r. snd (snd r)) results);
                    sent1 = concat (map fst results);
                    lg1 = lg0 @ concat (map (\<lambda>r. fst (snd r)) results)
                in case generate_csv_files (mkdir w) (open_w w) all_data (output_directory a)
                          claims of
                     ((files, lg2), Some e) \<Rightarrow>
                       \<lparr>sent = sent1, logged = lg1 @ lg2, written = files, pool = Closed,
                        uncaught = Some e\<rparr>
                   | ((files, lg2), None) \<Rightarrow>
                       \<lparr>sent = sent1,
                        logged = lg1 @ lg2
                          @ [LogInfo (''CSV files have been generated in '' @ output_directory a)],
                        written = files, pool = Closed, uncaught = None\<rparr>)))"

text \<open>
  \<^verbatim>\<open>main\<close>: \<^verbatim>\<open>except Exception\<close> logs whatever the body raised, and nothing leaves \<^verbatim>\<open>main\<close>.
  The process exits with code 0 when no exception leaves \<^verbatim>\<open>main\<close>, and with code 1 otherwise.
\<close>

definition main :: "world \<Rightarrow> args \<Rightarrow> outcome" where
  "main w a =
     (let r = main_body w a in
      case uncaught r of
        None \<Rightarrow> r
      | Some e \<Rightarrow> r\<lparr>logged := logged r @ [LogError ''An error occurred'' e], uncaught := None\<rparr>)"

definition exit_code :: "outcome \<Rightarrow> int" where
  "exit_code r = (case uncaught r of None \<Rightarrow> 0 | Some e \<Rightarrow> 1)"

section \<open>Notions used in the statements\<close>

text \<open>
  A record is complete for a claim spec when it has the key \<^verbatim>\<open>wikidata_id\<close> and every claim
  name of the spec as a key: no lookup of the emitter raises on it.
\<close>

definition record_complete :: "claims \<Rightarrow> norm_record \<Rightarrow> bool" where
  "record_complete claims values \<longleftrightarrow>
     values ''wikidata_id'' \<noteq> None \<and> (\<forall>claim_name \<in> snd ` set claims. values claim_name \<noteq> None)"

text \<open>The value a record holds at a key, \<^verbatim>\<open>None\<close> included.\<close>

definition cell_of :: "norm_record \<Rightarrow> string \<Rightarrow> cell" where
  "cell_of values k = (case values k of None \<Rightarrow> None | Some v \<Rightarrow> v)"

text \<open>The row the emitter writes for an entry of the aggregate, in the file of a claim.\<close>

definition csv_row :: "string \<Rightarrow> string \<times> norm_record \<Rightarrow> cell list" where
  "csv_row claim_name entry =
     [Some (fst entry), cell_of (snd entry) ''wikidata_id'', cell_of (snd entry) claim_name]"

text \<open>The path of the file of a claim.\<close>

definition csv_path :: "string \<Rightarrow> string \<Rightarrow> string" where
  "csv_path dir claim_name = path_join dir (claim_name @ ''_mapping.csv'')"

text \<open>
  The file system lets the emitter write the files of a claim spec: the output directory can
  be made and the file of every claim can be opened.
\<close>

definition emitter_can_write ::
  "(string \<Rightarrow> py_error option) \<Rightarrow> (string \<Rightarrow> py_error option) \<Rightarrow> string \<Rightarrow> claims \<Rightarrow> bool" where
  "emitter_can_write mk opn dir claims \<longleftrightarrow>
     makedirs mk dir = None \<and> (\<forall>c \<in> set claims. opn (csv_path dir (snd c)) = None)"

text \<open>A binding the normalizer accepts: \<^verbatim>\<open>rorID\<close> and \<^verbatim>\<open>item\<close> are bound and carry a value.\<close>

definition well_formed :: "raw_binding \<Rightarrow> bool" where
  "well_formed result \<longleftrightarrow> get_value result ''rorID'' \<noteq> None \<and> get_value result ''item'' \<noteq> None"

section \<open>Example inputs\<close>

text \<open>Concrete inputs, at which the theorems below are instantiated.\<close>

definition example_claims :: claims where
  "example_claims = [(''P856'', ''website''), (''P2427'', ''grid'')]"

definition example_args :: args where
  "example_args =
     \<lparr>input_file = ''claims.json'', output_directory = ''ror_wikidata_claims'',
      endpoint_url = ''https://query.wikidata.org/sparql'', limit = 10000, offset = 0,
      email = None\<rparr>"

definition offline_world :: world where
  "offline_world =
     \<lparr>read_file = (\<lambda>path. Inr example_claims), net = (\<lambda>request. NoReply ''connection refused''),
      mkdir = (\<lambda>dir. None), open_w = (\<lambda>path. None)\<rparr>"

definition unreadable_world :: world where
  "unreadable_world =
     \<lparr>read_file = (\<lambda>path. Inl (IOError ''No such file or directory'')),
      net = (\<lambda>request. NoReply ''connection refused''),
      mkdir = (\<lambda>dir. None), open_w = (\<lambda>path. None)\<rparr>"

definition undecodable_world :: world where
  "undecodable_world =
     \<lparr>read_file = (\<lambda>path. Inl (ValueError ''UnicodeDecodeError'')),
      net = (\<lambda>request. NoReply ''connection refused''),
      mkdir = (\<lambda>dir. None), open_w = (\<lambda>path. None)\<rparr>"

definition binding_a :: raw_binding where
  "binding_a =
     [''rorID'' \<mapsto> [''value'' \<mapsto> ''https://ror.org/01abc''],
      ''item'' \<mapsto> [''value'' \<mapsto> ''http://www.wikidata.org/entity/Q1''],
      ''website'' \<mapsto> [''value'' \<mapsto> ''http://a.org'']]"

definition binding_b :: raw_binding where
  "binding_b =
     [''rorID'' \<mapsto> [''value'' \<mapsto> ''https://ror.org/01abc''],
      ''item'' \<mapsto> [''value'' \<mapsto> ''http://www.wikidata.org/entity/Q1''],
      ''website'' \<mapsto> [''value'' \<mapsto> ''http://b.org'']]"

text \<open>The pages of a run by their offsets: two pages with a common key, and empty pages.\<close>

definition two_pages :: "int \<Rightarrow> (string \<times> string) list" where
  "two_pages off =
     (if off = 0 then [(''r1'', ''a''), (''r2'', ''b'')]
      else if off = 10000 then [(''r2'', ''c'')]
      else [])"

text \<open>
  An endpoint that answers by the \<^verbatim>\<open>OFFSET\<close> of the query, the text after its last space:
  \<open>binding_a\<close> at the offset 0, \<open>binding_b\<close> at the offset -1 and no binding elsewhere.
\<close>

definition offset_world :: world where
  "offset_world =
     \<lparr>read_file = (\<lambda>path. Inr example_claims),
      net = (\<lambda>request. Reply 200 (Some [''results'' \<mapsto> [''bindings'' \<mapsto>
               (if last (split_on CHR '' '' (snd (hd (params request)))) = ''0'' then [binding_a]
                else if last (split_on CHR '' '' (snd (hd (params request)))) = ''-1''
                then [binding_b] else [])]])),
      mkdir = (\<lambda>dir. None), open_w = (\<lambda>path. None)\<rparr>"

definition binding_no_ror :: raw_binding where
  "binding_no_ror = [''item'' \<mapsto> [''value'' \<mapsto> ''http://www.wikidata.org/entity/Q2'']]"

definition binding_clash :: raw_binding where
  "binding_clash =
     [''rorID'' \<mapsto> [''value'' \<mapsto> ''https://ror.org/01abc''],
      ''item'' \<mapsto> [''value'' \<mapsto> ''http://www.wikidata.org/entity/Q1''],
      ''wikidata_id'' \<mapsto> [''value'' \<mapsto> ''x'']]"

definition page_world :: world where
  "page_world =
     \<lparr>read_file = (\<lambda>path. Inr example_claims),
      net = (\<lambda>request. Reply 200
               (Some [''results'' \<mapsto> [''bindings'' \<mapsto> [binding_a, binding_no_ror]]])),
      mkdir = (\<lambda>dir. None), open_w = (\<lambda>path. None)\<rparr>"

definition example_data :: page_data where
  "example_data =
     [(''https://ror.org/01abc'',
       [''wikidata_id'' \<mapsto> Some ''Q1'', ''website'' \<mapsto> Some ''http://a.org'', ''grid'' \<mapsto> None]),
      (''https://ror.org/02def'',
       [''wikidata_id'' \<mapsto> Some ''Q2'', ''website'' \<mapsto> Some [], ''grid'' \<mapsto> Some ''grid.1'']),
      (''https://ror.org/03ghi'',
       [''wikidata_id'' \<mapsto> Some ''Q3'', ''website'' \<mapsto> Some ''http://c.org'', ''grid'' \<mapsto> None])]"

section \<open>Query builder: properties\<close>

lemma fold_query_step:
  "fold query_step claims (s, w) =
     (s @ concat (map select_variable claims), w @ concat (map optional_clause claims))"
proof (induction claims arbitrary: s w)
  case Nil
  show ?case by simp
next
  case (Cons entry rest)
  obtain claim_id claim_name where entry: "entry = (claim_id, claim_name)"
    by (cases entry)
  have "fold query_step (entry # rest) (s, w) = fold query_step rest (query_step entry (s, w))"
    by simp
  also have "query_step entry (s, w) = (s @ select_variable entry, w @ optional_clause entry)"
    by (simp add: entry select_variable_def optional_clause_def)
  also have "fold query_step rest (s @ select_variable entry, w @ optional_clause entry) =
      ((s @ select_variable entry) @ concat (map select_variable rest),
       (w @ optional_clause entry) @ concat (map optional_clause rest))"
    by (rule Cons.IH)
  finally show ?case by simp
qed

text \<open>
  C1. For every claim spec the query is the SELECT clause, a newline and the WHERE clause;
  the SELECT clause lists \<^verbatim>\<open>?item ?rorID\<close> followed by one variable \<^verbatim>\<open>?<claim_name>\<close>
  per entry of the spec, in the spec's order; the WHERE clause holds, after the mandatory
  triple, one \<^verbatim>\<open>OPTIONAL { ?item wdt:<claim_id> ?<claim_name> }\<close> per entry, in the same order;
  for the empty spec the query selects only \<^verbatim>\<open>?item ?rorID\<close> and has no OPTIONAL clause.
\<close>

theorem generate_sparql_query_shape:
  "generate_sparql_query claims =
     select_clause_of (map select_variable claims) @ [newline]
       @ where_clause_of (map optional_clause claims)
   \<and> length (map select_variable claims) = length claims
   \<and> length (map optional_clause claims) = length claims
   \<and> generate_sparql_query [] =
       ''SELECT ?item ?rorID'' @ [newline] @ ''WHERE {'' @ [newline]
         @ ''  ?item wdt:P6782 ?rorID .'' @ [newline] @ ''}''"
  by (simp add: generate_sparql_query_def fold_query_step select_clause_of_def
      where_clause_of_def)

section \<open>Dictionaries: properties\<close>

text \<open>
  Storing a key keeps the other entries, so a fold of stores reads as the map of the start
  overridden by the stored entries, the last store of a key winning.
\<close>

lemma set_update_subset: "set (AList.update k v al) \<subseteq> insert (k, v) (set al)"
  by (induction al) auto

lemma map_of_rev_distinct:
  "distinct (map fst xs) \<Longrightarrow> map_of (rev xs) = map_of xs"
proof (induction xs)
  case Nil
  show ?case by simp
next
  case (Cons x xs)
  then have notin: "fst x \<notin> fst ` set xs" and IH: "map_of (rev xs) = map_of xs"
    by auto
  have "map_of xs (fst x) = None"
    using notin by (simp add: map_of_eq_None_iff)
  then show ?case
    by (cases x) (auto simp: IH map_add_def fun_eq_iff split: option.splits)
qed

lemma update_fold_key:
  "map_of (fold (\<lambda>(k, v) acc. AList.update k v acc) other d) = map_of d ++ map_of (rev other)"
  by (induction other arbitrary: d) (auto simp: update_conv' map_add_def fun_eq_iff split: option.splits)

lemma map_of_dict_update:
  "distinct (map fst other) \<Longrightarrow> map_of (dict_update d other) = map_of d ++ map_of other"
  by (simp add: dict_update_def update_fold_key map_of_rev_distinct)

lemma keys_dict_update:
  "fst ` set (dict_update d other) = fst ` set d \<union> fst ` set other"
  unfolding dict_update_def
proof (induction other arbitrary: d)
  case Nil
  show ?case by simp
next
  case (Cons x other)
  obtain k v where x: "x = (k, v)" by (cases x)
  have "fst ` set (fold (\<lambda>(k, v) acc. AList.update k v acc) (x # other) d) =
        fst ` set (AList.update k v d) \<union> fst ` set other"
    by (simp add: x Cons.IH)
  also have "\<dots> = fst ` set d \<union> fst ` set (x # other)"
    by (simp add: dom_update x)
  finally show ?case .
qed

lemma distinct_dict_update:
  "distinct (map fst d) \<Longrightarrow> distinct (map fst (dict_update d other))"
  unfolding dict_update_def
  by (induction other arbitrary: d) (auto simp: distinct_update)

lemma set_dict_update_subset: "set (dict_update d other) \<subseteq> set d \<union> set other"
  unfolding dict_update_def
proof (induction other arbitrary: d)
  case Nil
  show ?case by simp
next
  case (Cons x other)
  obtain k v where x: "x = (k, v)" by (cases x)
  have "set (fold (\<lambda>(k, v) acc. AList.update k v acc) (x # other) d)
        \<subseteq> set (AList.update k v d) \<union> set other"
    using Cons.IH [of "AList.update k v d"] by (simp add: x)
  also have "\<dots> \<subseteq> set d \<union> set (x # other)"
    using set_update_subset [of k v d] by (auto simp: x)
  finally show ?case .
qed

lemma fold_merge_distinct:
  "distinct (map fst acc) \<Longrightarrow>
   distinct (map fst (fold (\<lambda>result all_data. dict_update all_data result) pages acc))"
  by (induction pages arbitrary: acc) (auto simp: distinct_dict_update)

lemma fold_merge_map_of:
  "\<forall>p \<in> set pages. distinct (map fst p) \<Longrightarrow>
   map_of (fold (\<lambda>result all_data. dict_update all_data result) pages acc) =
     foldl (++) (map_of acc) (map map_of pages)"
  by (induction pages arbitrary: acc) (auto simp: map_of_dict_update)

lemma fold_merge_keys:
  "fst ` set (fold (\<lambda>result all_data. dict_update all_data result) pages acc) =
     fst ` set acc \<union> (\<Union>p \<in> set pages. fst ` set p)"
  by (induction pages arbitrary: acc) (auto simp: keys_dict_update)

lemma set_fold_merge_subset:
  "set (fold (\<lambda>result all_data. dict_update all_data result) pages acc)
     \<subseteq> set acc \<union> (\<Union>p \<in> set pages. set p)"
proof (induction pages arbitrary: acc)
  case Nil
  show ?case by simp
next
  case (Cons p pages)
  have "set (fold (\<lambda>result all_data. dict_update all_data result) (p # pages) acc)
        \<subseteq> set (dict_update acc p) \<union> (\<Union>p \<in> set pages. set p)"
    using Cons.IH [of "dict_update acc p"] by simp
  also have "\<dots> \<subseteq> set acc \<union> (\<Union>p \<in> set (p # pages). set p)"
    using set_dict_update_subset [of acc p] by auto
  finally show ?case .
qed

lemma merge_pages_complete:
  "\<forall>p \<in> set pages. \<forall>e \<in> set p. P (snd e) \<Longrightarrow> \<forall>e \<in> set (merge_pages pages). P (snd e)"
  using set_fold_merge_subset [of pages "[]"] unfolding merge_pages_def by auto

lemma foldl_map_add_last:
  "i < length ms \<Longrightarrow> (ms ! i) k = Some v \<Longrightarrow>
   (\<forall>j. i < j \<and> j < length ms \<longrightarrow> (ms ! j) k = None) \<Longrightarrow>
   foldl (++) m ms k = Some v"
proof (induction ms arbitrary: i rule: rev_induct)
  case Nil
  then show ?case by simp
next
  case (snoc x ms)
  show ?case
  proof (cases "i = length ms")
    case True
    with snoc.prems(2) show ?thesis by (simp add: map_add_def)
  next
    case False
    with snoc.prems(1) have i: "i < length ms" by simp
    have "((ms @ [x]) ! length ms) k = None"
      using snoc.prems(3) [rule_format, of "length ms"] i by simp
    then have x: "x k = None" by simp
    have at: "(ms ! i) k = Some v" using snoc.prems(2) i by (simp add: nth_append)
    have later: "\<forall>j. i < j \<and> j < length ms \<longrightarrow> (ms ! j) k = None"
    proof (intro allI impI)
      fix j assume j: "i < j \<and> j < length ms"
      then have "((ms @ [x]) ! j) k = None"
        using snoc.prems(3) [rule_format, of j] by simp
      then show "(ms ! j) k = None" using j by (simp add: nth_append)
    qed
    show ?thesis
      using snoc.IH [OF i at later] x by (simp add: map_add_def)
  qed
qed

lemma fold_update_distinct:
  "distinct (map fst acc) \<Longrightarrow>
   distinct (map fst (fold (\<lambda>b. AList.update (k b) (r b)) xs acc))"
  by (induction xs arbitrary: acc) (auto simp: distinct_update)

lemma fold_update_keys:
  "fst ` set (fold (\<lambda>b. AList.update (k b) (r b)) xs acc) = fst ` set acc \<union> k ` set xs"
proof (induction xs arbitrary: acc)
  case Nil
  show ?case by simp
next
  case (Cons x xs)
  have "fst ` set (fold (\<lambda>b. AList.update (k b) (r b)) (x # xs) acc) =
        fst ` set (AList.update (k x) (r x) acc) \<union> k ` set xs"
    by (simp add: Cons.IH)
  also have "\<dots> = fst ` set acc \<union> k ` set (x # xs)"
    by (simp add: dom_update)
  finally show ?case .
qed

lemma fold_update_entries:
  "set (fold (\<lambda>b. AList.update (k b) (r b)) xs acc) \<subseteq> set acc \<union> (\<lambda>b. (k b, r b)) ` set xs"
proof (induction xs arbitrary: acc)
  case Nil
  show ?case by simp
next
  case (Cons x xs)
  have "set (fold (\<lambda>b. AList.update (k b) (r b)) (x # xs) acc)
        \<subseteq> set (AList.update (k x) (r x) acc) \<union> (\<lambda>b. (k b, r b)) ` set xs"
    using Cons.IH [of "AList.update (k x) (r x) acc"] by simp
  also have "\<dots> \<subseteq> set acc \<union> (\<lambda>b. (k b, r b)) ` set (x # xs)"
    using set_update_subset [of "k x" "r x" acc] by auto
  finally show ?case .
qed

lemma fold_update_last:
  "i < length xs \<Longrightarrow> (\<forall>j. i < j \<and> j < length xs \<longrightarrow> k (xs ! j) \<noteq> k (xs ! i)) \<Longrightarrow>
   map_of (fold (\<lambda>b. AList.update (k b) (r b)) xs acc) (k (xs ! i)) = Some (r (xs ! i))"
proof (induction xs arbitrary: i rule: rev_induct)
  case Nil
  then show ?case by simp
next
  case (snoc x xs)
  show ?case
  proof (cases "i = length xs")
    case True
    then show ?thesis by (simp add: update_conv')
  next
    case False
    with snoc.prems(1) have i: "i < length xs" by simp
    have "k ((xs @ [x]) ! length xs) \<noteq> k ((xs @ [x]) ! i)"
      using snoc.prems(2) [rule_format, of "length xs"] i by simp
    then have ne: "k x \<noteq> k (xs ! i)" using i by (simp add: nth_append)
    have later: "\<forall>j. i < j \<and> j < length xs \<longrightarrow> k (xs ! j) \<noteq> k (xs ! i)"
    proof (intro allI impI)
      fix j assume j: "i < j \<and> j < length xs"
      then have "k ((xs @ [x]) ! j) \<noteq> k ((xs @ [x]) ! i)"
        using snoc.prems(2) [rule_format, of j] by simp
      then show "k (xs ! j) \<noteq> k (xs ! i)" using j i by (simp add: nth_append)
    qed
    show ?thesis
      using snoc.IH [OF i later] ne i by (simp add: update_conv' nth_append)
  qed
qed

lemma update_complete:
  "\<forall>e \<in> set al. P (snd e) \<Longrightarrow> P v \<Longrightarrow> \<forall>e \<in> set (AList.update k v al). P (snd e)"
  using set_update_subset [of k v al] by auto

section \<open>Result normalizer: properties\<close>

lemma split_on_nonempty: "split_on sep s \<noteq> []"
  by (induction s) (auto split: list.splits)

lemma split_on_no_sep: "sep \<notin> set w \<Longrightarrow> split_on sep w = [w]"
  by (induction w) auto

lemma split_on_sep_tl: "sep \<in> set s \<Longrightarrow> tl (split_on sep s) \<noteq> []"
  by (induction s) (auto simp: split_on_nonempty split: list.splits)

lemma last_split_on_append:
  "sep \<notin> set w \<Longrightarrow> last (split_on sep (pre @ sep # w)) = w"
proof (induction pre)
  case Nil
  then show ?case by (simp add: split_on_no_sep)
next
  case (Cons c pre)
  then have IH: "last (split_on sep (pre @ sep # w)) = w" by simp
  obtain x xs where sp: "split_on sep (pre @ sep # w) = x # xs"
    using split_on_nonempty [of sep "pre @ sep # w"] by (cases "split_on sep (pre @ sep # w)") auto
  have "tl (split_on sep (pre @ sep # w)) \<noteq> []"
    by (rule split_on_sep_tl) simp
  then have len: "xs \<noteq> []" by (simp add: sp)
  show ?case using IH sp len by auto
qed

lemma fold_upd_lookup:
  "fold (\<lambda>name (record :: 'a \<rightharpoonup> 'b). record(name \<mapsto> f name)) names r0 k =
     (if k \<in> set names then Some (f k) else r0 k)"
  by (induction names arbitrary: r0) auto

lemma make_record_claim:
  "claim_name \<in> snd ` set claims \<Longrightarrow>
   make_record wid result claims claim_name = Some (get_value result claim_name)"
  by (simp add: make_record_def fold_upd_lookup)

lemma make_record_wikidata_id:
  "''wikidata_id'' \<notin> snd ` set claims \<Longrightarrow>
   make_record wid result claims ''wikidata_id'' = Some (Some wid)"
  by (simp add: make_record_def fold_upd_lookup)

lemma make_record_dom:
  "dom (make_record wid result claims) = insert ''wikidata_id'' (snd ` set claims)"
  by (auto simp: make_record_def fold_upd_lookup dom_def split: if_splits)

lemma make_record_complete: "record_complete claims (make_record wid result claims)"
  by (auto simp: record_complete_def make_record_def fold_upd_lookup)

lemma process_loop_ok:
  "\<forall>b \<in> set page. well_formed b \<Longrightarrow>
   process_loop page claims acc =
     Inr (fold (\<lambda>b. AList.update (the (get_value b ''rorID''))
                  (make_record (last (split_on CHR ''/'' (the (get_value b ''item''))))
                     b claims))
            page acc)"
proof (induction page arbitrary: acc)
  case Nil
  show ?case by simp
next
  case (Cons b page)
  then have wf: "well_formed b" and rest: "\<forall>b \<in> set page. well_formed b"
    by auto
  from wf obtain ror_obj ror_id item_obj uri where
    b: "b ''rorID'' = Some ror_obj" "ror_obj ''value'' = Some ror_id"
       "b ''item'' = Some item_obj" "item_obj ''value'' = Some uri"
    by (auto simp: well_formed_def get_value_def split: option.splits)
  then have g: "get_value b ''rorID'' = Some ror_id" "get_value b ''item'' = Some uri"
    by (simp_all add: get_value_def)
  show ?case
    by (simp add: b g subscript_def Cons.IH [OF rest])
qed

lemma process_loop_fail:
  "b \<in> set page \<Longrightarrow> \<not> well_formed b \<Longrightarrow>
   \<exists>k \<in> {''rorID'', ''item'', ''value''}. process_loop page claims acc = Inl (KeyError k)"
proof (induction page arbitrary: acc)
  case Nil
  then show ?case by simp
next
  case (Cons x page)
  show ?case
  proof (cases "well_formed x")
    case True
    with Cons.prems have "b \<in> set page" by auto
    from True obtain ror_obj ror_id item_obj uri where
      x: "x ''rorID'' = Some ror_obj" "ror_obj ''value'' = Some ror_id"
         "x ''item'' = Some item_obj" "item_obj ''value'' = Some uri"
      by (auto simp: well_formed_def get_value_def split: option.splits)
    show ?thesis
      using Cons.IH [OF \<open>b \<in> set page\<close> Cons.prems(2)]
      by (simp add: x subscript_def)
  next
    case False
    then show ?thesis
      by (auto simp: well_formed_def get_value_def subscript_def split: option.splits)
  qed
qed

lemma process_loop_complete:
  "process_loop page claims acc = Inr data \<Longrightarrow>
   \<forall>e \<in> set acc. record_complete claims (snd e) \<Longrightarrow>
   \<forall>e \<in> set data. record_complete claims (snd e)"
proof (induction page arbitrary: acc)
  case Nil
  then show ?case by simp
next
  case (Cons b page)
  from Cons.prems(1) obtain ror_id uri where
    step: "process_loop page claims
             (AList.update ror_id (make_record (last (split_on CHR ''/'' uri)) b claims) acc)
           = Inr data"
    by (auto simp: subscript_def split: option.splits)
  have "\<forall>e \<in> set (AList.update ror_id (make_record (last (split_on CHR ''/'' uri)) b claims) acc).
          record_complete claims (snd e)"
    using Cons.prems(2) make_record_complete
    by (rule update_complete [where P = "record_complete claims"])
  then show ?case by (rule Cons.IH [OF step])
qed

text \<open>
  C7, as amended. For every page in which every binding has a \<^verbatim>\<open>rorID\<close> and an \<^verbatim>\<open>item\<close> entry
  with a \<^verbatim>\<open>value\<close>, and every claim spec in which no claim is named \<^verbatim>\<open>wikidata_id\<close>, the
  normalizer returns a dictionary whose keys are exactly the \<^verbatim>\<open>rorID\<close> values of the page;
  each of its records was built from a binding of the page with that \<^verbatim>\<open>rorID\<close> value: its
  \<^verbatim>\<open>wikidata_id\<close> is the part of the \<^verbatim>\<open>item\<close> value after its last \<^verbatim>\<open>/\<close> (the whole value when it
  has none), each claim name maps to the binding's value for that variable when it is bound
  and to \<^verbatim>\<open>None\<close> when it is not, and it has no other key.
\<close>

theorem normalizer_records:
  assumes wf: "\<forall>b \<in> set page. well_formed b"
    and nocoll: "''wikidata_id'' \<notin> snd ` set claims"
  shows "\<exists>data. process_wikidata_results page claims = Inr data
     \<and> distinct (map fst data)
     \<and> fst ` set data = {rid. \<exists>b \<in> set page. get_value b ''rorID'' = Some rid}
     \<and> (\<forall>(rid, vals) \<in> set data. \<exists>b \<in> set page. \<exists>uri.
           get_value b ''rorID'' = Some rid \<and> get_value b ''item'' = Some uri
         \<and> (\<forall>pre w. uri = pre @ CHR ''/'' # w \<and> CHR ''/'' \<notin> set w
               \<longrightarrow> vals ''wikidata_id'' = Some (Some w))
         \<and> (CHR ''/'' \<notin> set uri \<longrightarrow> vals ''wikidata_id'' = Some (Some uri))
         \<and> dom vals = insert ''wikidata_id'' (snd ` set claims)
         \<and> (\<forall>claim_name \<in> snd ` set claims.
               (\<forall>obj. b claim_name = Some obj \<longrightarrow> vals claim_name = Some (obj ''value''))
             \<and> (b claim_name = None \<longrightarrow> vals claim_name = Some None)))"
proof -
  define key where "key = (\<lambda>b :: raw_binding. the (get_value b ''rorID''))"
  define entry where
    "entry = (\<lambda>b :: raw_binding.
       make_record (last (split_on CHR ''/'' (the (get_value b ''item'')))) b claims)"
  define data where "data = fold (\<lambda>b. AList.update (key b) (entry b)) page []"
  have run: "process_wikidata_results page claims = Inr data"
    unfolding process_wikidata_results_def data_def key_def entry_def
    by (rule process_loop_ok [OF wf])
  have dist: "distinct (map fst data)"
    unfolding data_def by (rule fold_update_distinct) simp
  have key_some: "get_value b ''rorID'' = Some (key b)" if "b \<in> set page" for b
    using wf that by (auto simp: well_formed_def key_def)
  have keys: "fst ` set data = {rid. \<exists>b \<in> set page. get_value b ''rorID'' = Some rid}"
  proof -
    have "fst ` set data = key ` set page"
      unfolding data_def by (simp add: fold_update_keys)
    also have "\<dots> = {rid. \<exists>b \<in> set page. get_value b ''rorID'' = Some rid}"
      using key_some by (auto simp: image_iff)
    finally show ?thesis .
  qed
  have entries: "\<exists>b \<in> set page. \<exists>uri.
           get_value b ''rorID'' = Some rid \<and> get_value b ''item'' = Some uri
         \<and> (\<forall>pre w. uri = pre @ CHR ''/'' # w \<and> CHR ''/'' \<notin> set w
               \<longrightarrow> vals ''wikidata_id'' = Some (Some w))
         \<and> (CHR ''/'' \<notin> set uri \<longrightarrow> vals ''wikidata_id'' = Some (Some uri))
         \<and> dom vals = insert ''wikidata_id'' (snd ` set claims)
         \<and> (\<forall>claim_name \<in> snd ` set claims.
               (\<forall>obj. b claim_name = Some obj \<longrightarrow> vals claim_name = Some (obj ''value''))
             \<and> (b claim_name = None \<longrightarrow> vals claim_name = Some None))"
    if mem: "(rid, vals) \<in> set data" for rid vals
  proof -
    have "set data \<subseteq> (\<lambda>b. (key b, entry b)) ` set page"
      using fold_update_entries [of key entry page "[]"] by (simp add: data_def)
    with mem obtain b where b: "b \<in> set page" "rid = key b" "vals = entry b"
      by auto
    from wf b(1) obtain uri where uri: "get_value b ''item'' = Some uri"
      by (auto simp: well_formed_def)
    have v: "vals = make_record (last (split_on CHR ''/'' uri)) b claims"
      by (simp add: b(3) entry_def uri)
    have w1: "\<forall>pre w. uri = pre @ CHR ''/'' # w \<and> CHR ''/'' \<notin> set w
               \<longrightarrow> vals ''wikidata_id'' = Some (Some w)"
      by (auto simp: v make_record_wikidata_id [OF nocoll] last_split_on_append)
    have w2: "CHR ''/'' \<notin> set uri \<longrightarrow> vals ''wikidata_id'' = Some (Some uri)"
      by (simp add: v make_record_wikidata_id [OF nocoll] split_on_no_sep)
    have w3: "\<forall>claim_name \<in> snd ` set claims.
               (\<forall>obj. b claim_name = Some obj \<longrightarrow> vals claim_name = Some (obj ''value''))
             \<and> (b claim_name = None \<longrightarrow> vals claim_name = Some None)"
      by (simp add: v make_record_claim get_value_def)
    have w4: "dom vals = insert ''wikidata_id'' (snd ` set claims)"
      by (simp add: v make_record_dom)
    show ?thesis
      using b(1) key_some [OF b(1)] b(2) uri w1 w2 w3 w4 by blast
  qed
  show ?thesis
    using run dist keys entries by blast
qed

text \<open>
  C7, at a page of one binding.
\<close>

theorem normalizer_records_witness:
  "list_all well_formed [binding_a]
   \<and> ''wikidata_id'' \<notin> snd ` set example_claims
   \<and> process_wikidata_results [binding_a] example_claims =
       Inr [(''https://ror.org/01abc'',
             [''wikidata_id'' \<mapsto> Some ''Q1'', ''website'' \<mapsto> Some ''http://a.org'',
              ''grid'' \<mapsto> None])]"
proof -
  have wf: "\<forall>b \<in> set [binding_a]. well_formed b"
    by (simp add: well_formed_def get_value_def binding_a_def)
  have nocoll: "''wikidata_id'' \<notin> snd ` set example_claims"
    by (simp add: example_claims_def)
  have ev: "process_wikidata_results [binding_a] example_claims =
       Inr [(''https://ror.org/01abc'',
             [''wikidata_id'' \<mapsto> Some ''Q1'', ''website'' \<mapsto> Some ''http://a.org'',
              ''grid'' \<mapsto> None])]"
    using normalizer_records [OF wf nocoll]
    by (simp add: process_wikidata_results_def binding_a_def example_claims_def subscript_def
        make_record_def get_value_def)
  show ?thesis using wf nocoll ev by simp
qed

text \<open>
  C7 as stated fails: on a binding without \<^verbatim>\<open>rorID\<close> the normalizer raises \<^verbatim>\<open>KeyError\<close> and
  returns no mapping; and for a claim named \<^verbatim>\<open>wikidata_id\<close> the record's \<^verbatim>\<open>wikidata_id\<close> entry
  holds the claim's value \<^verbatim>\<open>x\<close>, not the \<^verbatim>\<open>Q1\<close> of the \<^verbatim>\<open>item\<close> URI.
\<close>

theorem normalizer_not_total:
  "process_wikidata_results [binding_no_ror] example_claims = Inl (KeyError ''rorID'')
   \<and> process_wikidata_results [binding_clash] [(''P1'', ''wikidata_id'')] =
       Inr [(''https://ror.org/01abc'', [''wikidata_id'' \<mapsto> Some ''x''])]"
  by (simp add: process_wikidata_results_def binding_no_ror_def binding_clash_def subscript_def
      make_record_def get_value_def)

text \<open>
  C9. Within one page (every binding accepted by the normalizer), the output holds, at a
  registry identifier, the record built from the last binding of the page with that
  identifier: a binding after which no binding of the page has the same \<^verbatim>\<open>rorID\<close> value.
\<close>

theorem last_binding_wins:
  assumes wf: "\<forall>b \<in> set page. well_formed b"
  shows "\<exists>data. process_wikidata_results page claims = Inr data
     \<and> (\<forall>i < length page.
          (\<forall>j. i < j \<and> j < length page
             \<longrightarrow> get_value (page ! j) ''rorID'' \<noteq> get_value (page ! i) ''rorID'')
          \<longrightarrow> (\<exists>rid uri. get_value (page ! i) ''rorID'' = Some rid
                \<and> get_value (page ! i) ''item'' = Some uri
                \<and> map_of data rid =
                    Some (make_record (last (split_on CHR ''/'' uri)) (page ! i) claims)))"
proof -
  define key where "key = (\<lambda>b :: raw_binding. the (get_value b ''rorID''))"
  define entry where
    "entry = (\<lambda>b :: raw_binding.
       make_record (last (split_on CHR ''/'' (the (get_value b ''item'')))) b claims)"
  define data where "data = fold (\<lambda>b. AList.update (key b) (entry b)) page []"
  have run: "process_wikidata_results page claims = Inr data"
    unfolding process_wikidata_results_def data_def key_def entry_def
    by (rule process_loop_ok [OF wf])
  have key_some: "get_value b ''rorID'' = Some (key b)" if "b \<in> set page" for b
    using wf that by (auto simp: well_formed_def key_def)
  have last: "\<exists>rid uri. get_value (page ! i) ''rorID'' = Some rid
                \<and> get_value (page ! i) ''item'' = Some uri
                \<and> map_of data rid =
                    Some (make_record (last (split_on CHR ''/'' uri)) (page ! i) claims)"
    if i: "i < length page"
      and later: "\<forall>j. i < j \<and> j < length page
             \<longrightarrow> get_value (page ! j) ''rorID'' \<noteq> get_value (page ! i) ''rorID''"
    for i
  proof -
    have mem: "page ! i \<in> set page" using i by simp
    from wf mem obtain uri where uri: "get_value (page ! i) ''item'' = Some uri"
      by (auto simp: well_formed_def)
    have "\<forall>j. i < j \<and> j < length page \<longrightarrow> key (page ! j) \<noteq> key (page ! i)"
    proof (intro allI impI)
      fix j assume j: "i < j \<and> j < length page"
      then have "page ! j \<in> set page" by simp
      then have "get_value (page ! j) ''rorID'' = Some (key (page ! j))" by (rule key_some)
      moreover have "get_value (page ! j) ''rorID'' \<noteq> get_value (page ! i) ''rorID''"
        using later j by blast
      ultimately show "key (page ! j) \<noteq> key (page ! i)"
        using key_some [OF mem] by auto
    qed
    then have "map_of data (key (page ! i)) = Some (entry (page ! i))"
      unfolding data_def by (rule fold_update_last [OF i])
    then show ?thesis
      using key_some [OF mem] uri by (simp add: entry_def)
  qed
  show ?thesis using run last by blast
qed

text \<open>
  C9, at a page of two bindings with the same \<^verbatim>\<open>rorID\<close> value: the record is the second one's.
\<close>

theorem last_binding_wins_witness:
  "list_all well_formed [binding_a, binding_b]
   \<and> get_value binding_a ''rorID'' = get_value binding_b ''rorID''
   \<and> process_wikidata_results [binding_a, binding_b] example_claims =
       Inr [(''https://ror.org/01abc'',
             [''wikidata_id'' \<mapsto> Some ''Q1'', ''website'' \<mapsto> Some ''http://b.org'',
              ''grid'' \<mapsto> None])]"
proof -
  have wf: "\<forall>b \<in> set [binding_a, binding_b]. well_formed b"
    by (simp add: well_formed_def get_value_def binding_a_def binding_b_def)
  have same: "get_value binding_a ''rorID'' = get_value binding_b ''rorID''"
    by (simp add: get_value_def binding_a_def binding_b_def)
  have ev: "process_wikidata_results [binding_a, binding_b] example_claims =
       Inr [(''https://ror.org/01abc'',
             [''wikidata_id'' \<mapsto> Some ''Q1'', ''website'' \<mapsto> Some ''http://b.org'',
              ''grid'' \<mapsto> None])]"
    using last_binding_wins [OF wf, of example_claims]
    by (simp add: process_wikidata_results_def binding_a_def binding_b_def example_claims_def
        subscript_def make_record_def get_value_def)
  show ?thesis using wf same ev by simp
qed

section \<open>Worker: properties\<close>

lemma worker_sent: "fst (worker nt u q claims lim off em) = [build_request u q lim off em]"
  by (simp add: worker_def execute_sparql_query_def Let_def split: sum.splits py_error.splits)

lemma worker_data_complete:
  "\<forall>e \<in> set (snd (snd (worker nt u q claims lim off em))). record_complete claims (snd e)"
proof (cases "execute_sparql_query nt u q lim off em")
  case (fields sn lg res)
  show ?thesis
  proof (cases res)
    case (Inl e)
    then show ?thesis by (simp add: worker_def fields)
  next
    case (Inr results)
    show ?thesis
    proof (cases "process_wikidata_results results claims")
      case (Inl e)
      then show ?thesis by (simp add: worker_def fields Inr)
    next
      case data: (Inr processed_data)
      have "\<forall>e \<in> set processed_data. record_complete claims (snd e)"
        using data unfolding process_wikidata_results_def
        by (rule process_loop_complete) simp
      then show ?thesis by (simp add: worker_def fields Inr data)
    qed
  qed
qed

lemma aggregate_complete:
  "\<forall>entry \<in> set (merge_pages (map (\<lambda>off. snd (snd (worker nt u q claims lim off em))) offs)).
     record_complete claims (snd entry)"
  by (rule merge_pages_complete) (auto simp: worker_data_complete)

text \<open>
  C10. The normalizer is partial: on a page with a binding that lacks \<^verbatim>\<open>rorID\<close> or \<^verbatim>\<open>item\<close>, or
  whose \<^verbatim>\<open>rorID\<close> or \<^verbatim>\<open>item\<close> entry lacks a \<^verbatim>\<open>value\<close>, it raises \<^verbatim>\<open>KeyError\<close>; the worker that
  fetched such a page logs the error and returns the empty dictionary, whatever the other
  bindings of the page are.
\<close>

theorem malformed_binding_discards_page:
  assumes mem: "b \<in> set page" and bad: "\<not> well_formed b"
  shows "(\<exists>k \<in> {''rorID'', ''item'', ''value''}.
            process_wikidata_results page claims = Inl (KeyError k))
     \<and> (\<forall>nt url q lim off em.
           read_bindings (nt (build_request url q lim off em)) = Inr page
           \<longrightarrow> (\<exists>k \<in> {''rorID'', ''item'', ''value''}.
                  worker nt url q claims lim off em =
                    ([build_request url q lim off em],
                     [LogError (''Error in worker (offset '' @ str_int off @ '')'') (KeyError k)],
                     [])))"
proof -
  obtain k where k: "k \<in> {''rorID'', ''item'', ''value''}"
    and fail: "process_wikidata_results page claims = Inl (KeyError k)"
    using process_loop_fail [OF mem bad, of claims "[]"]
    unfolding process_wikidata_results_def by blast
  have "worker nt url q claims lim off em =
          ([build_request url q lim off em],
           [LogError (''Error in worker (offset '' @ str_int off @ '')'') (KeyError k)], [])"
    if "read_bindings (nt (build_request url q lim off em)) = Inr page"
    for nt url q lim off em
    using that fail by (simp add: worker_def execute_sparql_query_def Let_def)
  then show ?thesis using k fail by blast
qed

text \<open>
  C10, at a page whose first binding is accepted and whose second lacks \<^verbatim>\<open>rorID\<close>.
\<close>

theorem malformed_binding_discards_page_witness:
  "binding_no_ror \<in> set [binding_a, binding_no_ror]
   \<and> \<not> well_formed binding_no_ror
   \<and> well_formed binding_a
   \<and> process_wikidata_results [binding_a, binding_no_ror] example_claims =
       Inl (KeyError ''rorID'')
   \<and> worker (net page_world) (endpoint_url example_args)
        (generate_sparql_query example_claims) example_claims (limit example_args) 0
        (email example_args) =
       ([build_request (endpoint_url example_args) (generate_sparql_query example_claims)
           (limit example_args) 0 (email example_args)],
        [LogError ''Error in worker (offset 0)'' (KeyError ''rorID'')],
        [])"
proof -
  have mem: "binding_no_ror \<in> set [binding_a, binding_no_ror]" by simp
  have bad: "\<not> well_formed binding_no_ror"
    by (simp add: well_formed_def get_value_def binding_no_ror_def)
  have good: "well_formed binding_a"
    by (simp add: well_formed_def get_value_def binding_a_def)
  note t = malformed_binding_discards_page [OF mem bad, of example_claims]
  have s0: "str_int 0 = ''0''"
    by (simp add: str_int_def str_nat.simps digit_char_def)
  have ev: "process_wikidata_results [binding_a, binding_no_ror] example_claims =
       Inl (KeyError ''rorID'')"
    using t
    by (simp add: process_wikidata_results_def binding_a_def binding_no_ror_def subscript_def)
  have rb: "read_bindings (net page_world (build_request (endpoint_url example_args)
          (generate_sparql_query example_claims) (limit example_args) 0 (email example_args))) =
       Inr [binding_a, binding_no_ror]"
    by (simp add: read_bindings_def page_world_def subscript_def)
  obtain k where "worker (net page_world) (endpoint_url example_args)
        (generate_sparql_query example_claims) example_claims (limit example_args) 0
        (email example_args) =
       ([build_request (endpoint_url example_args) (generate_sparql_query example_claims)
           (limit example_args) 0 (email example_args)],
        [LogError (''Error in worker (offset '' @ str_int 0 @ '')'') (KeyError k)],
        [])"
    using t [THEN conjunct2, rule_format, of "net page_world" "endpoint_url example_args"
        "generate_sparql_query example_claims" "limit example_args" 0 "email example_args", OF rb]
    by blast
  moreover have "worker (net page_world) (endpoint_url example_args)
        (generate_sparql_query example_claims) example_claims (limit example_args) 0
        (email example_args) =
       ([build_request (endpoint_url example_args) (generate_sparql_query example_claims)
           (limit example_args) 0 (email example_args)],
        [LogError (''Error in worker (offset '' @ str_int 0 @ '')'') (KeyError ''rorID'')],
        [])"
    using rb ev by (simp add: worker_def execute_sparql_query_def Let_def)
  ultimately have w: "worker (net page_world) (endpoint_url example_args)
        (generate_sparql_query example_claims) example_claims (limit example_args) 0
        (email example_args) =
       ([build_request (endpoint_url example_args) (generate_sparql_query example_claims)
           (limit example_args) 0 (email example_args)],
        [LogError ''Error in worker (offset 0)'' (KeyError ''rorID'')],
        [])"
    by (simp add: s0)
  show ?thesis using mem bad good ev w by blast
qed

section \<open>CSV emitter: properties\<close>

lemma truthy_cell_of:
  "truthy (cell_of vals k) \<longleftrightarrow> (\<exists>s. vals k = Some (Some s) \<and> s \<noteq> [])"
  by (cases "vals k"; cases "cell_of vals k") (auto simp: cell_of_def)

lemma write_rows_complete:
  "\<forall>entry \<in> set data. snd entry claim_name \<noteq> None \<and> snd entry ''wikidata_id'' \<noteq> None \<Longrightarrow>
   write_rows data claim_name rows =
     (rows @ map (csv_row claim_name)
               (filter (\<lambda>entry. truthy (cell_of (snd entry) claim_name)) data), None)"
proof (induction data arbitrary: rows)
  case Nil
  show ?case by simp
next
  case (Cons entry data)
  obtain ror_id vals where entry: "entry = (ror_id, vals)" by (cases entry)
  from Cons.prems obtain v wid where
    v: "vals claim_name = Some v" and wid: "vals ''wikidata_id'' = Some wid"
    by (auto simp: entry)
  have rest: "\<forall>entry \<in> set data. snd entry claim_name \<noteq> None \<and> snd entry ''wikidata_id'' \<noteq> None"
    using Cons.prems by simp
  show ?case
    by (simp add: entry v wid subscript_def cell_of_def csv_row_def Cons.IH [OF rest])
qed

lemma generate_csv_loop_complete:
  "\<forall>claim_name \<in> snd ` set cs. \<forall>entry \<in> set data.
      snd entry claim_name \<noteq> None \<and> snd entry ''wikidata_id'' \<noteq> None \<Longrightarrow>
   generate_csv_loop opn data dir cs (files, lg) =
     ((files @ map (\<lambda>c. (csv_path dir (snd c),
                          [Some ''ROR ID'', Some ''Wikidata ID'', Some (snd c)]
                            # map (csv_row (snd c))
                                (filter (\<lambda>entry. truthy (cell_of (snd entry) (snd c))) data)))
                 (takeWhile (\<lambda>c. opn (csv_path dir (snd c)) = None) cs),
       lg @ map (\<lambda>c. LogInfo (''Generated CSV file: '' @ csv_path dir (snd c)))
              (takeWhile (\<lambda>c. opn (csv_path dir (snd c)) = None) cs)),
      (case dropWhile (\<lambda>c. opn (csv_path dir (snd c)) = None) cs of
         [] \<Rightarrow> None
       | c # rest \<Rightarrow> opn (csv_path dir (snd c))))"
proof (induction cs arbitrary: files lg)
  case Nil
  show ?case by simp
next
  case (Cons c cs)
  obtain claim_id claim_name where c: "c = (claim_id, claim_name)" by (cases c)
  have here: "\<forall>entry \<in> set data. snd entry claim_name \<noteq> None \<and> snd entry ''wikidata_id'' \<noteq> None"
    using Cons.prems by (simp add: c)
  have rest: "\<forall>claim_name \<in> snd ` set cs. \<forall>entry \<in> set data.
      snd entry claim_name \<noteq> None \<and> snd entry ''wikidata_id'' \<noteq> None"
    using Cons.prems by simp
  show ?case
  proof (cases "opn (csv_path dir claim_name)")
    case None
    then show ?thesis
      by (simp add: c write_rows_complete [OF here] Cons.IH [OF rest] csv_path_def Let_def)
  next
    case (Some e)
    then show ?thesis
      by (simp add: c csv_path_def Let_def)
  qed
qed

lemma generate_csv_files_complete:
  assumes "\<forall>entry \<in> set data. record_complete claims (snd entry)"
    and "makedirs mk dir = None"
  shows "generate_csv_files mk opn data dir claims =
     ((map (\<lambda>c. (csv_path dir (snd c),
                  [Some ''ROR ID'', Some ''Wikidata ID'', Some (snd c)]
                    # map (csv_row (snd c))
                        (filter (\<lambda>entry. truthy (cell_of (snd entry) (snd c))) data)))
         (takeWhile (\<lambda>c. opn (csv_path dir (snd c)) = None) claims),
       map (\<lambda>c. LogInfo (''Generated CSV file: '' @ csv_path dir (snd c)))
         (takeWhile (\<lambda>c. opn (csv_path dir (snd c)) = None) claims)),
      (case dropWhile (\<lambda>c. opn (csv_path dir (snd c)) = None) claims of
         [] \<Rightarrow> None
       | c # rest \<Rightarrow> opn (csv_path dir (snd c))))"
proof -
  have "\<forall>claim_name \<in> snd ` set claims. \<forall>entry \<in> set data.
      snd entry claim_name \<noteq> None \<and> snd entry ''wikidata_id'' \<noteq> None"
    using assms(1) by (auto simp: record_complete_def)
  then show ?thesis
    unfolding generate_csv_files_def by (simp add: generate_csv_loop_complete assms(2))
qed

lemma generate_csv_files_no_directory:
  "makedirs mk dir = Some e \<Longrightarrow> generate_csv_files mk opn data dir claims = (([], []), Some e)"
  by (simp add: generate_csv_files_def)

lemma generate_csv_files_written:
  assumes "\<forall>entry \<in> set data. record_complete claims (snd entry)"
    and "emitter_can_write mk opn dir claims"
  shows "generate_csv_files mk opn data dir claims =
     ((map (\<lambda>c. (csv_path dir (snd c),
                  [Some ''ROR ID'', Some ''Wikidata ID'', Some (snd c)]
                    # map (csv_row (snd c))
                        (filter (\<lambda>entry. truthy (cell_of (snd entry) (snd c))) data))) claims,
       map (\<lambda>c. LogInfo (''Generated CSV file: '' @ csv_path dir (snd c))) claims),
      None)"
proof -
  have mk: "makedirs mk dir = None"
    and all: "\<forall>c \<in> set claims. opn (csv_path dir (snd c)) = None"
    using assms(2) by (simp_all add: emitter_can_write_def)
  have tw: "takeWhile (\<lambda>c. opn (csv_path dir (snd c)) = None) claims = claims"
    using all by (simp add: takeWhile_eq_all_conv)
  have dw: "dropWhile (\<lambda>c. opn (csv_path dir (snd c)) = None) claims = []"
    using all by simp
  show ?thesis
    by (simp only: generate_csv_files_complete [OF assms(1) mk] tw dw list.case)
qed

lemma generate_csv_files_emitted:
  assumes complete: "\<forall>entry \<in> set data. record_complete claims (snd entry)"
  shows "\<exists>files lg err. generate_csv_files mk opn data dir claims = ((files, lg), err)
     \<and> length files \<le> length claims
     \<and> (\<forall>i < length files.
          files ! i =
            (csv_path dir (snd (claims ! i)),
             [Some ''ROR ID'', Some ''Wikidata ID'', Some (snd (claims ! i))]
               # map (csv_row (snd (claims ! i)))
                   (filter (\<lambda>entry. truthy (cell_of (snd entry) (snd (claims ! i)))) data)))
     \<and> (emitter_can_write mk opn dir claims \<longrightarrow> err = None \<and> length files = length claims)"
proof (cases "makedirs mk dir")
  case (Some e)
  have "generate_csv_files mk opn data dir claims = (([], []), Some e)"
    using Some by (rule generate_csv_files_no_directory)
  then show ?thesis using Some by (simp add: emitter_can_write_def)
next
  case None
  define file_of where
    "file_of = (\<lambda>c :: string \<times> string. (csv_path dir (snd c),
                  [Some ''ROR ID'', Some ''Wikidata ID'', Some (snd c)]
                    # map (csv_row (snd c))
                        (filter (\<lambda>entry. truthy (cell_of (snd entry) (snd c))) data)))"
  define opened where "opened = takeWhile (\<lambda>c. opn (csv_path dir (snd c)) = None) claims"
  define err where
    "err = (case dropWhile (\<lambda>c. opn (csv_path dir (snd c)) = None) claims of
         [] \<Rightarrow> None
       | c # rest \<Rightarrow> opn (csv_path dir (snd c)))"
  have run: "generate_csv_files mk opn data dir claims =
      ((map file_of opened,
        map (\<lambda>c. LogInfo (''Generated CSV file: '' @ csv_path dir (snd c))) opened), err)"
    unfolding file_of_def opened_def err_def
    by (rule generate_csv_files_complete [OF complete None])
  have len: "length (map file_of opened) \<le> length claims"
    by (simp add: opened_def length_takeWhile_le)
  have each: "\<forall>i < length (map file_of opened).
          map file_of opened ! i =
            (csv_path dir (snd (claims ! i)),
             [Some ''ROR ID'', Some ''Wikidata ID'', Some (snd (claims ! i))]
               # map (csv_row (snd (claims ! i)))
                   (filter (\<lambda>entry. truthy (cell_of (snd entry) (snd (claims ! i)))) data))"
  proof (intro allI impI)
    fix i assume "i < length (map file_of opened)"
    then have i: "i < length opened" by simp
    then have "opened ! i = claims ! i"
      unfolding opened_def by (rule takeWhile_nth)
    then show "map file_of opened ! i =
            (csv_path dir (snd (claims ! i)),
             [Some ''ROR ID'', Some ''Wikidata ID'', Some (snd (claims ! i))]
               # map (csv_row (snd (claims ! i)))
                   (filter (\<lambda>entry. truthy (cell_of (snd entry) (snd (claims ! i)))) data))"
      using i by (simp add: file_of_def)
  qed
  have all: "emitter_can_write mk opn dir claims
      \<longrightarrow> err = None \<and> length (map file_of opened) = length claims"
  proof
    assume "emitter_can_write mk opn dir claims"
    then have a: "\<forall>c \<in> set claims. opn (csv_path dir (snd c)) = None"
      by (simp add: emitter_can_write_def)
    have same: "opened = claims"
      unfolding opened_def using a by (simp add: takeWhile_eq_all_conv)
    have dw: "dropWhile (\<lambda>c. opn (csv_path dir (snd c)) = None) claims = []"
      using a by simp
    have "err = None" by (simp only: err_def dw list.case)
    then show "err = None \<and> length (map file_of opened) = length claims" by (simp add: same)
  qed
  show ?thesis
    by (intro exI conjI) (rule run, rule len, rule each, rule all)
qed

text \<open>
  C4, as amended. For every aggregate whose records are complete for the claim spec (those of
  a run are: \<open>aggregate_complete\<close>), every file the emitter writes is the file of the claim at
  its place in the spec, and in it the row of an entry of the aggregate appears if and only if
  the entry's value for that claim is a non-empty string: a value that is \<^verbatim>\<open>None\<close> or empty
  gives no row, and every row after the header is the row of an entry. When the output
  directory can be made and the claims' files can be opened, the emitter raises nothing and
  every claim of the spec has its file.
\<close>

theorem csv_row_iff_value:
  assumes complete: "\<forall>entry \<in> set data. record_complete claims (snd entry)"
  shows "\<exists>files lg err. generate_csv_files mk opn data dir claims = ((files, lg), err)
     \<and> length files \<le> length claims
     \<and> (\<forall>i < length files.
          fst (files ! i) = csv_path dir (snd (claims ! i))
        \<and> (\<forall>entry \<in> set data.
              csv_row (snd (claims ! i)) entry \<in> set (tl (snd (files ! i)))
              \<longleftrightarrow> (\<exists>s. snd entry (snd (claims ! i)) = Some (Some s) \<and> s \<noteq> []))
        \<and> (\<forall>row \<in> set (tl (snd (files ! i))).
              \<exists>entry \<in> set data. row = csv_row (snd (claims ! i)) entry))
     \<and> (emitter_can_write mk opn dir claims \<longrightarrow> err = None \<and> length files = length claims)"
proof -
  obtain files lg err where
    run: "generate_csv_files mk opn data dir claims = ((files, lg), err)"
    and len: "length files \<le> length claims"
    and shape: "\<forall>i < length files.
          files ! i =
            (csv_path dir (snd (claims ! i)),
             [Some ''ROR ID'', Some ''Wikidata ID'', Some (snd (claims ! i))]
               # map (csv_row (snd (claims ! i)))
                   (filter (\<lambda>entry. truthy (cell_of (snd entry) (snd (claims ! i)))) data))"
    and all: "emitter_can_write mk opn dir claims \<longrightarrow> err = None \<and> length files = length claims"
    using generate_csv_files_emitted [OF complete, of mk opn dir] by blast
  have each: "\<forall>i < length files.
          fst (files ! i) = csv_path dir (snd (claims ! i))
        \<and> (\<forall>entry \<in> set data.
              csv_row (snd (claims ! i)) entry \<in> set (tl (snd (files ! i)))
              \<longleftrightarrow> (\<exists>s. snd entry (snd (claims ! i)) = Some (Some s) \<and> s \<noteq> []))
        \<and> (\<forall>row \<in> set (tl (snd (files ! i))).
              \<exists>entry \<in> set data. row = csv_row (snd (claims ! i)) entry)"
  proof (intro allI impI)
    fix i assume i: "i < length files"
    define cn where "cn = snd (claims ! i)"
    have tl_rows: "tl (snd (files ! i)) =
        map (csv_row cn) (filter (\<lambda>entry. truthy (cell_of (snd entry) cn)) data)"
      using shape i by (simp add: cn_def)
    have path: "fst (files ! i) = csv_path dir cn"
      using shape i by (simp add: cn_def)
    have iff: "csv_row cn entry \<in> set (tl (snd (files ! i)))
              \<longleftrightarrow> (\<exists>s. snd entry cn = Some (Some s) \<and> s \<noteq> [])"
      if mem: "entry \<in> set data" for entry
    proof
      assume "csv_row cn entry \<in> set (tl (snd (files ! i)))"
      then obtain e where e: "e \<in> set data" "truthy (cell_of (snd e) cn)"
        "csv_row cn entry = csv_row cn e"
        by (auto simp: tl_rows)
      from e(3) have "cell_of (snd entry) cn = cell_of (snd e) cn"
        by (simp add: csv_row_def)
      with e(2) have "truthy (cell_of (snd entry) cn)" by simp
      then show "\<exists>s. snd entry cn = Some (Some s) \<and> s \<noteq> []"
        by (simp add: truthy_cell_of)
    next
      assume "\<exists>s. snd entry cn = Some (Some s) \<and> s \<noteq> []"
      then have "truthy (cell_of (snd entry) cn)" by (simp add: truthy_cell_of)
      with mem show "csv_row cn entry \<in> set (tl (snd (files ! i)))"
        by (auto simp: tl_rows)
    qed
    have only: "\<forall>row \<in> set (tl (snd (files ! i))). \<exists>entry \<in> set data. row = csv_row cn entry"
      by (auto simp: tl_rows)
    show "fst (files ! i) = csv_path dir (snd (claims ! i))
        \<and> (\<forall>entry \<in> set data.
              csv_row (snd (claims ! i)) entry \<in> set (tl (snd (files ! i)))
              \<longleftrightarrow> (\<exists>s. snd entry (snd (claims ! i)) = Some (Some s) \<and> s \<noteq> []))
        \<and> (\<forall>row \<in> set (tl (snd (files ! i))).
              \<exists>entry \<in> set data. row = csv_row (snd (claims ! i)) entry)"
      using path iff only unfolding cn_def by blast
  qed
  show ?thesis
    by (intro exI conjI) (rule run, rule len, rule each, rule all)
qed

text \<open>
  C4, at three records and two claims, with a file system that accepts every call: both files
  are written, and the empty and the \<^verbatim>\<open>None\<close> values give no row.
\<close>

theorem csv_row_iff_value_witness:
  "list_all (\<lambda>entry. record_complete example_claims (snd entry)) example_data
   \<and> emitter_can_write (\<lambda>dir. None) (\<lambda>path. None) ''out'' example_claims
   \<and> generate_csv_files (\<lambda>dir. None) (\<lambda>path. None) example_data ''out'' example_claims =
       (([(''out/website_mapping.csv'',
           [[Some ''ROR ID'', Some ''Wikidata ID'', Some ''website''],
            [Some ''https://ror.org/01abc'', Some ''Q1'', Some ''http://a.org''],
            [Some ''https://ror.org/03ghi'', Some ''Q3'', Some ''http://c.org'']]),
          (''out/grid_mapping.csv'',
           [[Some ''ROR ID'', Some ''Wikidata ID'', Some ''grid''],
            [Some ''https://ror.org/02def'', Some ''Q2'', Some ''grid.1'']])],
         [LogInfo ''Generated CSV file: out/website_mapping.csv'',
          LogInfo ''Generated CSV file: out/grid_mapping.csv'']), None)"
proof -
  have c: "\<forall>entry \<in> set example_data. record_complete example_claims (snd entry)"
    by (simp add: example_data_def example_claims_def record_complete_def)
  have fs: "emitter_can_write (\<lambda>dir. None) (\<lambda>path. None) ''out'' example_claims"
    by (simp add: emitter_can_write_def makedirs_def)
  have ev: "generate_csv_files (\<lambda>dir. None) (\<lambda>path. None) example_data ''out'' example_claims =
       (([(''out/website_mapping.csv'',
           [[Some ''ROR ID'', Some ''Wikidata ID'', Some ''website''],
            [Some ''https://ror.org/01abc'', Some ''Q1'', Some ''http://a.org''],
            [Some ''https://ror.org/03ghi'', Some ''Q3'', Some ''http://c.org'']]),
          (''out/grid_mapping.csv'',
           [[Some ''ROR ID'', Some ''Wikidata ID'', Some ''grid''],
            [Some ''https://ror.org/02def'', Some ''Q2'', Some ''grid.1'']])],
         [LogInfo ''Generated CSV file: out/website_mapping.csv'',
          LogInfo ''Generated CSV file: out/grid_mapping.csv'']), None)"
    using csv_row_iff_value [OF c, of "\<lambda>dir. None" "\<lambda>path. None" "''out''"]
    by (simp add: generate_csv_files_def makedirs_def example_data_def example_claims_def
        subscript_def path_join_def Let_def)
  show ?thesis using c fs ev by (simp add: list_all_iff)
qed

text \<open>
  C4 as stated fails: with the empty output directory \<^verbatim>\<open>os.makedirs\<close> raises, whatever the file
  system would do, and no file is written, so the records of the aggregate that have a value
  get no row.
\<close>

theorem no_directory_no_rows:
  "generate_csv_files (\<lambda>dir. None) (\<lambda>path. None) example_data [] example_claims =
     (([], []), Some (IOError ''FileNotFoundError''))
   \<and> snd (example_data ! 0) ''website'' = Some (Some ''http://a.org'')"
  by (simp add: generate_csv_files_def makedirs_def example_data_def)

text \<open>
  C6. Every file the emitter writes is the file of the claim at its place in the spec: its
  first row is \<^verbatim>\<open>["ROR ID", "Wikidata ID", <claim_name>]\<close> and the rows after it are the rows of
  the entries of the aggregate that pass the non-empty filter, in the aggregate's iteration
  order; and when the output directory can be made and the claims' files can be opened, every
  claim of the spec has its file.
\<close>

theorem csv_header_and_order:
  assumes complete: "\<forall>entry \<in> set data. record_complete claims (snd entry)"
  shows "\<exists>files lg err. generate_csv_files mk opn data dir claims = ((files, lg), err)
     \<and> length files \<le> length claims
     \<and> (\<forall>i < length files.
          fst (files ! i) = csv_path dir (snd (claims ! i))
        \<and> snd (files ! i) =
            [Some ''ROR ID'', Some ''Wikidata ID'', Some (snd (claims ! i))]
              # map (csv_row (snd (claims ! i)))
                  (filter (\<lambda>entry. truthy (cell_of (snd entry) (snd (claims ! i)))) data))
     \<and> (emitter_can_write mk opn dir claims \<longrightarrow> err = None \<and> length files = length claims)"
proof -
  obtain files lg err where
    run: "generate_csv_files mk opn data dir claims = ((files, lg), err)"
    and len: "length files \<le> length claims"
    and shape: "\<forall>i < length files.
          files ! i =
            (csv_path dir (snd (claims ! i)),
             [Some ''ROR ID'', Some ''Wikidata ID'', Some (snd (claims ! i))]
               # map (csv_row (snd (claims ! i)))
                   (filter (\<lambda>entry. truthy (cell_of (snd entry) (snd (claims ! i)))) data))"
    and all: "emitter_can_write mk opn dir claims \<longrightarrow> err = None \<and> length files = length claims"
    using generate_csv_files_emitted [OF complete, of mk opn dir] by blast
  have each: "\<forall>i < length files.
          fst (files ! i) = csv_path dir (snd (claims ! i))
        \<and> snd (files ! i) =
            [Some ''ROR ID'', Some ''Wikidata ID'', Some (snd (claims ! i))]
              # map (csv_row (snd (claims ! i)))
                  (filter (\<lambda>entry. truthy (cell_of (snd entry) (snd (claims ! i)))) data)"
    using shape by simp
  show ?thesis
    by (intro exI conjI) (rule run, rule len, rule each, rule all)
qed

text \<open>
  C6, at the same three records, with a file system in which the second claim's file cannot
  be opened: the file of \<^verbatim>\<open>website\<close> starts with its header and holds the rows of the first and
  third records, in that order; and with a file system that accepts every call both files
  are written.
\<close>

theorem csv_header_and_order_witness:
  "list_all (\<lambda>entry. record_complete example_claims (snd entry)) example_data
   \<and> fst (generate_csv_files (\<lambda>dir. None)
        (\<lambda>path. if path = ''out/grid_mapping.csv'' then Some (IOError ''PermissionError'') else None)
        example_data ''out'' example_claims) =
       ([(''out/website_mapping.csv'',
          [[Some ''ROR ID'', Some ''Wikidata ID'', Some ''website''],
           [Some ''https://ror.org/01abc'', Some ''Q1'', Some ''http://a.org''],
           [Some ''https://ror.org/03ghi'', Some ''Q3'', Some ''http://c.org'']])],
        [LogInfo ''Generated CSV file: out/website_mapping.csv''])
   \<and> emitter_can_write (\<lambda>dir. None) (\<lambda>path. None) ''out'' example_claims
   \<and> length (fst (fst (generate_csv_files (\<lambda>dir. None) (\<lambda>path. None) example_data ''out''
        example_claims))) = 2"
proof -
  have c: "\<forall>entry \<in> set example_data. record_complete example_claims (snd entry)"
    by (simp add: example_data_def example_claims_def record_complete_def)
  have fs: "emitter_can_write (\<lambda>dir. None) (\<lambda>path. None) ''out'' example_claims"
    by (simp add: emitter_can_write_def makedirs_def)
  have ev: "fst (generate_csv_files (\<lambda>dir. None)
        (\<lambda>path. if path = ''out/grid_mapping.csv'' then Some (IOError ''PermissionError'') else None)
        example_data ''out'' example_claims) =
       ([(''out/website_mapping.csv'',
          [[Some ''ROR ID'', Some ''Wikidata ID'', Some ''website''],
           [Some ''https://ror.org/01abc'', Some ''Q1'', Some ''http://a.org''],
           [Some ''https://ror.org/03ghi'', Some ''Q3'', Some ''http://c.org'']])],
        [LogInfo ''Generated CSV file: out/website_mapping.csv''])"
    by (simp add: generate_csv_files_def makedirs_def example_data_def example_claims_def
        subscript_def path_join_def Let_def)
  obtain files lg err where
    run: "generate_csv_files (\<lambda>dir. None) (\<lambda>path. None) example_data ''out'' example_claims
          = ((files, lg), err)"
    and all: "emitter_can_write (\<lambda>dir. None) (\<lambda>path. None) ''out'' example_claims
          \<longrightarrow> err = None \<and> length files = length example_claims"
    using csv_header_and_order [OF c, of "\<lambda>dir. None" "\<lambda>path. None" "''out''"] by blast
  have two: "length files = 2" using all fs by (simp add: example_claims_def)
  have "list_all (\<lambda>entry. record_complete example_claims (snd entry)) example_data"
    using c by (simp add: list_all_iff)
  then show ?thesis using ev fs two by (simp add: run)
qed

section \<open>Driver: properties\<close>

lemma range_len_20: "lim \<noteq> 0 \<Longrightarrow> range_len off (off + lim * 20) lim = 20"
proof -
  assume nz: "lim \<noteq> 0"
  have pos: "(l * 20 - 1) div l = 19" if "0 < l" for l :: int
    by (rule int_div_pos_eq [where r = "l - 1"]) (use that in auto)
  show ?thesis
  proof (cases "0 < lim")
    case True
    then show ?thesis using pos [of lim] by (simp add: range_len_def)
  next
    case False
    with nz have neg: "0 < - lim" by simp
    have "off - (off + lim * 20) - 1 = (- lim) * 20 - 1" by simp
    then show ?thesis using pos [OF neg] neg False by (simp add: range_len_def)
  qed
qed

lemma py_range_20:
  "lim \<noteq> 0 \<Longrightarrow> py_range off (off + lim * 20) lim = Inr (map (\<lambda>k. off + int k * lim) [0..<20])"
  by (simp add: py_range_def range_len_20)

lemma offsets_increasing:
  "0 < lim \<Longrightarrow> sorted_wrt (<) (map (\<lambda>k. off + int k * lim) [0..<20])"
  by (simp add: sorted_wrt_iff_nth_less del: upt.simps)

text \<open>
  C3, as amended. For every sequence of per-page mappings (dictionaries: their keys are
  distinct), the merged aggregate is their left-to-right right-biased union: as a map it is
  the pages' maps folded with \<open>++\<close> from the empty map, it is a dictionary again, its keys are
  the keys of all the pages, and a key holds the value of the last page of the sequence that
  has it. When the pages are those of the driver's offsets and the limit is positive, that
  page is the one with the largest offset among the pages that have the key.
\<close>

theorem merge_pages_right_biased:
  assumes dist: "\<forall>p \<in> set pages. distinct (map fst p)"
  shows "map_of (merge_pages pages) = foldl (++) Map.empty (map map_of pages)
     \<and> distinct (map fst (merge_pages pages))
     \<and> fst ` set (merge_pages pages) = (\<Union>p \<in> set pages. fst ` set p)
     \<and> (\<forall>i < length pages. \<forall>k v.
          map_of (pages ! i) k = Some v
          \<and> (\<forall>j. i < j \<and> j < length pages \<longrightarrow> map_of (pages ! j) k = None)
          \<longrightarrow> map_of (merge_pages pages) k = Some v)
     \<and> (\<forall>lim start offs page.
          0 < lim \<and> py_range start (start + lim * 20) lim = Inr offs \<and> pages = map page offs
          \<longrightarrow> (\<forall>off \<in> set offs. \<forall>k v.
                 map_of (page off) k = Some v
                 \<and> (\<forall>off' \<in> set offs. off < off' \<longrightarrow> map_of (page off') k = None)
                 \<longrightarrow> map_of (merge_pages pages) k = Some v))"
proof -
  have union: "map_of (merge_pages pages) = foldl (++) Map.empty (map map_of pages)"
    unfolding merge_pages_def using fold_merge_map_of [OF dist, of "[]"] by simp
  have d: "distinct (map fst (merge_pages pages))"
    unfolding merge_pages_def by (rule fold_merge_distinct) simp
  have keys: "fst ` set (merge_pages pages) = (\<Union>p \<in> set pages. fst ` set p)"
    unfolding merge_pages_def by (simp add: fold_merge_keys)
  have last: "map_of (merge_pages pages) k = Some v"
    if i: "i < length pages" and at: "map_of (pages ! i) k = Some v"
      and later: "\<forall>j. i < j \<and> j < length pages \<longrightarrow> map_of (pages ! j) k = None"
    for i k v
  proof -
    have "foldl (++) Map.empty (map map_of pages) k = Some v"
    proof (rule foldl_map_add_last [where i = i])
      show "i < length (map map_of pages)" using i by simp
      show "(map map_of pages ! i) k = Some v" using i at by simp
      show "\<forall>j. i < j \<and> j < length (map map_of pages) \<longrightarrow> (map map_of pages ! j) k = None"
        using later by simp
    qed
    then show ?thesis by (simp add: union)
  qed
  have largest: "map_of (merge_pages pages) k = Some v"
    if lim: "0 < lim" and range: "py_range start (start + lim * 20) lim = Inr offs"
      and pages: "pages = map page offs" and mem: "off \<in> set offs"
      and at: "map_of (page off) k = Some v"
      and above: "\<forall>off' \<in> set offs. off < off' \<longrightarrow> map_of (page off') k = None"
    for lim start offs and page :: "int \<Rightarrow> ('a \<times> 'b) list" and off k v
  proof -
    have offs: "offs = map (\<lambda>n. start + int n * lim) [0..<20]"
      using range lim by (simp add: py_range_20)
    have len: "length pages = 20" by (simp add: pages offs)
    from mem obtain i where i: "i < 20" and off: "off = start + int i * lim"
      by (auto simp: offs simp del: upt.simps)
    have nth: "pages ! n = page (start + int n * lim)" if "n < 20" for n
      using that by (simp add: pages offs del: upt.simps)
    have later: "\<forall>j. i < j \<and> j < length pages \<longrightarrow> map_of (pages ! j) k = None"
    proof (intro allI impI)
      fix j assume j: "i < j \<and> j < length pages"
      then have j20: "j < 20" by (simp add: len)
      have "j \<in> set [0..<20]" using j20 by simp
      then have "start + int j * lim \<in> (\<lambda>n. start + int n * lim) ` set [0..<20]"
        by (rule imageI)
      then have "start + int j * lim \<in> set offs"
        by (simp only: offs set_map)
      moreover have "off < start + int j * lim"
        using j lim by (simp add: off)
      ultimately have "map_of (page (start + int j * lim)) k = None"
        using above by blast
      then show "map_of (pages ! j) k = None" by (simp add: nth [OF j20])
    qed
    show ?thesis
    proof (rule last [where i = i])
      show "i < length pages" using i by (simp add: len)
      show "map_of (pages ! i) k = Some v" using at by (simp add: nth [OF i] off)
      show "\<forall>j. i < j \<and> j < length pages \<longrightarrow> map_of (pages ! j) k = None" by (rule later)
    qed
  qed
  have by_position: "\<forall>i < length pages. \<forall>k v.
          map_of (pages ! i) k = Some v
          \<and> (\<forall>j. i < j \<and> j < length pages \<longrightarrow> map_of (pages ! j) k = None)
          \<longrightarrow> map_of (merge_pages pages) k = Some v"
    using last by blast
  have by_offset: "\<forall>lim start offs page.
          0 < lim \<and> py_range start (start + lim * 20) lim = Inr offs \<and> pages = map page offs
          \<longrightarrow> (\<forall>off \<in> set offs. \<forall>k v.
                 map_of (page off) k = Some v
                 \<and> (\<forall>off' \<in> set offs. off < off' \<longrightarrow> map_of (page off') k = None)
                 \<longrightarrow> map_of (merge_pages pages) k = Some v)"
  proof (intro allI impI ballI)
    fix lim start offs and page :: "int \<Rightarrow> ('a \<times> 'b) list" and off k v
    assume h: "0 < lim \<and> py_range start (start + lim * 20) lim = Inr offs \<and> pages = map page offs"
      and mem: "off \<in> set offs"
      and at: "map_of (page off) k = Some v
                 \<and> (\<forall>off' \<in> set offs. off < off' \<longrightarrow> map_of (page off') k = None)"
    show "map_of (merge_pages pages) k = Some v"
    proof (rule largest)
      show "0 < lim" using h by simp
      show "py_range start (start + lim * 20) lim = Inr offs" using h by simp
      show "pages = map page offs" using h by simp
      show "off \<in> set offs" by (rule mem)
      show "map_of (page off) k = Some v" using at by simp
      show "\<forall>off' \<in> set offs. off < off' \<longrightarrow> map_of (page off') k = None" using at by simp
    qed
  qed
  show ?thesis
    by (intro conjI) (rule union, rule d, rule keys, rule by_position, rule by_offset)
qed

text \<open>
  C3, at two pages that share the key \<^verbatim>\<open>r2\<close>: the second page's value is kept; and at the
  pages of the default offsets, 0, 10000, ..., where the pages of the offsets 0 and 10000 share
  the key \<^verbatim>\<open>r2\<close>: the value of the page of offset 10000 is kept.
\<close>

theorem merge_pages_right_biased_witness:
  "distinct (map fst [(''r1'', ''a''), (''r2'', ''b'')]) \<and> distinct (map fst [(''r2'', ''c'')])
   \<and> map_of (merge_pages [[(''r1'', ''a''), (''r2'', ''b'')], [(''r2'', ''c'')]]) ''r2'' = Some ''c''
   \<and> map_of (merge_pages [[(''r1'', ''a''), (''r2'', ''b'')], [(''r2'', ''c'')]]) ''r1'' = Some ''a''
   \<and> fst ` set (merge_pages [[(''r1'', ''a''), (''r2'', ''b'')], [(''r2'', ''c'')]]) = {''r1'', ''r2''}
   \<and> list_all (\<lambda>p. distinct (map fst p))
        (map two_pages (map (\<lambda>k. 0 + int k * 10000) [0..<20]))
   \<and> (0 :: int) < 10000
   \<and> py_range 0 (0 + 10000 * 20) 10000 = Inr (map (\<lambda>k. 0 + int k * 10000) [0..<20])
   \<and> map_of (two_pages 0) ''r2'' = Some ''b''
   \<and> map_of (two_pages 10000) ''r2'' = Some ''c''
   \<and> map_of (merge_pages (map two_pages (map (\<lambda>k. 0 + int k * 10000) [0..<20]))) ''r2''
       = Some ''c''"
proof -
  have small: "map_of (merge_pages [[(''r1'', ''a''), (''r2'', ''b'')], [(''r2'', ''c'')]]) ''r2''
        = Some ''c''
      \<and> map_of (merge_pages [[(''r1'', ''a''), (''r2'', ''b'')], [(''r2'', ''c'')]]) ''r1''
        = Some ''a''
      \<and> fst ` set (merge_pages [[(''r1'', ''a''), (''r2'', ''b'')], [(''r2'', ''c'')]])
        = {''r1'', ''r2''}"
    using merge_pages_right_biased [of "[[(''r1'', ''a''), (''r2'', ''b'')], [(''r2'', ''c'')]]"]
    by (simp add: map_add_def insert_commute)
  define offs where "offs = map (\<lambda>k. 0 + int k * 10000) [0..<20]"
  have dist: "\<forall>p \<in> set (map two_pages offs). distinct (map fst p)"
    by (auto simp: two_pages_def)
  have lim: "(0 :: int) < 10000" by simp
  have range: "py_range 0 (0 + 10000 * 20) 10000 = Inr offs"
    unfolding offs_def by (rule py_range_20) simp
  have "(1 :: nat) \<in> set [0..<20]" by simp
  then have "0 + int 1 * 10000 \<in> (\<lambda>k. 0 + int k * 10000) ` set [0..<20]"
    by (rule imageI)
  then have mem: "10000 \<in> set offs" by (simp only: offs_def set_map) simp
  have at: "map_of (two_pages 10000) ''r2'' = Some ''c''"
    by (simp add: two_pages_def)
  have first: "map_of (two_pages 0) ''r2'' = Some ''b''"
    by (simp add: two_pages_def)
  have above: "\<forall>off' \<in> set offs. 10000 < off' \<longrightarrow> map_of (two_pages off') ''r2'' = None"
    by (simp add: two_pages_def)
  have "map_of (merge_pages (map two_pages offs)) ''r2'' = Some ''c''"
    using merge_pages_right_biased [OF dist, THEN conjunct2, THEN conjunct2, THEN conjunct2,
        THEN conjunct2, rule_format, of 10000 0 offs two_pages 10000 "''r2''" "''c''"]
      lim range mem at above
    by blast
  moreover have "list_all (\<lambda>p. distinct (map fst p)) (map two_pages offs)"
    using dist by (simp add: list_all_iff)
  ultimately show ?thesis
    using small lim range first at unfolding offs_def by simp
qed

text \<open>
  C3 as stated fails for a negative limit: with the limit -1 the offsets are 0, -1, ..., -19,
  in that order. The endpoint of \<open>offset_world\<close> answers the page of offset 0 with a binding
  whose \<^verbatim>\<open>website\<close> is \<^verbatim>\<open>http://a.org\<close> and the page of offset -1 with a binding of the same
  registry identifier whose \<^verbatim>\<open>website\<close> is \<^verbatim>\<open>http://b.org\<close>; the file written holds
  \<^verbatim>\<open>http://b.org\<close>, the record of the page with the smaller offset.
\<close>

theorem negative_limit_smallest_offset_wins:
  "py_range (offset (example_args\<lparr>limit := - 1\<rparr>))
     (offset (example_args\<lparr>limit := - 1\<rparr>) + limit (example_args\<lparr>limit := - 1\<rparr>) * 20)
     (limit (example_args\<lparr>limit := - 1\<rparr>)) =
     Inr [0, - 1, - 2, - 3, - 4, - 5, - 6, - 7, - 8, - 9, - 10, - 11, - 12, - 13, - 14, - 15,
          - 16, - 17, - 18, - 19]
   \<and> written (main offset_world (example_args\<lparr>limit := - 1\<rparr>)) =
       [(''ror_wikidata_claims/website_mapping.csv'',
         [[Some ''ROR ID'', Some ''Wikidata ID'', Some ''website''],
          [Some ''https://ror.org/01abc'', Some ''Q1'', Some ''http://b.org'']]),
        (''ror_wikidata_claims/grid_mapping.csv'',
         [[Some ''ROR ID'', Some ''Wikidata ID'', Some ''grid'']])]"
  by code_simp

lemma parse_json_claims_ok:
  "rd path = Inr claims \<Longrightarrow> parse_json_claims rd path = ([], Inr claims)"
  by (simp add: parse_json_claims_def)

lemma main_body_ok:
  assumes rd: "read_file w (input_file a) = Inr claims" and nz: "limit a \<noteq> 0"
  shows "main_body w a =
    (let results = map (\<lambda>k. worker (net w) (endpoint_url a) (generate_sparql_query claims) claims
                           (limit a) (offset a + int k * limit a) (email a)) [0..<20];
         all_data = merge_pages (map (\<lambda>r. snd (snd r)) results)
     in case generate_csv_files (mkdir w) (open_w w) all_data (output_directory a) claims of
          ((files, lg2), err) \<Rightarrow>
            \<lparr>sent = map (\<lambda>k. build_request (endpoint_url a) (generate_sparql_query claims)
                           (limit a) (offset a + int k * limit a) (email a)) [0..<20],
             logged = concat (map (\<lambda>r. fst (snd r)) results) @ lg2
               @ (case err of
                    None \<Rightarrow> [LogInfo (''CSV files have been generated in '' @ output_directory a)]
                  | Some e \<Rightarrow> []),
             written = files, pool = Closed, uncaught = err\<rparr>)"
proof -
  define results where
    "results = map (\<lambda>k. worker (net w) (endpoint_url a) (generate_sparql_query claims) claims
                           (limit a) (offset a + int k * limit a) (email a)) [0..<20]"
  define all_data where "all_data = merge_pages (map (\<lambda>r. snd (snd r)) results)"
  have sn: "concat (map fst results) =
      map (\<lambda>k. build_request (endpoint_url a) (generate_sparql_query claims)
                           (limit a) (offset a + int k * limit a) (email a)) [0..<20]"
    unfolding results_def by (simp add: worker_sent comp_def del: upt.simps)
  have res: "map (\<lambda>off. worker (net w) (endpoint_url a) (generate_sparql_query claims) claims
                (limit a) off (email a)) (map (\<lambda>k. offset a + int k * limit a) [0..<20])
             = results"
    unfolding results_def by (simp add: comp_def del: upt.simps)
  have parse: "parse_json_claims (read_file w) (input_file a) = ([], Inr claims)"
    using rd by (rule parse_json_claims_ok)
  obtain files lg2 err where
    gen: "generate_csv_files (mkdir w) (open_w w) all_data (output_directory a) claims
          = ((files, lg2), err)"
    by (metis surj_pair)
  have "main_body w a =
      \<lparr>sent = concat (map fst results),
       logged = concat (map (\<lambda>r. fst (snd r)) results) @ lg2
         @ (case err of
              None \<Rightarrow> [LogInfo (''CSV files have been generated in '' @ output_directory a)]
            | Some e \<Rightarrow> []),
       written = files, pool = Closed, uncaught = err\<rparr>"
    unfolding main_body_def
    by (simp only: parse py_range_20 [OF nz] prod.case sum.case Let_def
        res all_data_def [symmetric] gen append_Nil)
       (cases err; simp)
  then show ?thesis
    by (simp only: Let_def results_def [symmetric] all_data_def [symmetric] gen prod.case sn)
qed

lemma run_aggregate_complete:
  "\<forall>entry \<in> set (merge_pages (map (\<lambda>r. snd (snd r))
       (map (\<lambda>k. worker nt u q claims lim (off + int k * lim) em) [0..<20]))).
     record_complete claims (snd entry)"
  by (rule merge_pages_complete) (auto simp: worker_data_complete simp del: upt.simps)

lemma main_effects:
  "sent (main w a) = sent (main_body w a)"
  "written (main w a) = written (main_body w a)"
  "pool (main w a) = pool (main_body w a)"
  "uncaught (main w a) = None"
  "logged (main w a) =
     logged (main_body w a)
       @ (case uncaught (main_body w a) of
            None \<Rightarrow> []
          | Some e \<Rightarrow> [LogError ''An error occurred'' e])"
  by (simp_all add: main_def Let_def split: option.splits)

lemma main_body_sent:
  assumes rd: "read_file w (input_file a) = Inr claims" and nz: "limit a \<noteq> 0"
  shows "sent (main_body w a) =
           map (\<lambda>k. build_request (endpoint_url a) (generate_sparql_query claims) (limit a)
                       (offset a + int k * limit a) (email a)) [0..<20]"
    and "pool (main_body w a) = Closed"
  by (simp_all add: main_body_ok [OF rd nz] Let_def split: prod.splits del: upt.simps)

lemma main_body_written:
  assumes rd: "read_file w (input_file a) = Inr claims" and nz: "limit a \<noteq> 0"
  shows "written (main_body w a) =
     fst (fst (generate_csv_files (mkdir w) (open_w w)
       (merge_pages (map (\<lambda>r. snd (snd r))
          (map (\<lambda>k. worker (net w) (endpoint_url a) (generate_sparql_query claims) claims
                  (limit a) (offset a + int k * limit a) (email a)) [0..<20])))
       (output_directory a) claims))"
  by (simp add: main_body_ok [OF rd nz] Let_def split: prod.splits del: upt.simps)

lemma main_body_worker_logs:
  assumes rd: "read_file w (input_file a) = Inr claims" and nz: "limit a \<noteq> 0"
    and k: "k < 20"
  shows "set (fst (snd (worker (net w) (endpoint_url a) (generate_sparql_query claims) claims
                  (limit a) (offset a + int k * limit a) (email a))))
         \<subseteq> set (logged (main_body w a))"
proof -
  have "k \<in> set [0..<20]" using k by simp
  then show ?thesis
    by (auto simp add: main_body_ok [OF rd nz] Let_def split: prod.splits simp del: upt.simps)
qed

text \<open>
  C2, as amended. In a run whose claims file loaded, for every starting offset and every
  non-zero limit, whatever the endpoint answers, exactly 20 requests are sent: the \<open>k\<close>-th
  (from 0 to 19) goes to the endpoint URL with the base query followed by
  \<^verbatim>\<open> LIMIT {limit} OFFSET {offset + k * limit}\<close>.
\<close>

theorem fetch_dispatches_twenty:
  assumes rd: "read_file w (input_file a) = Inr claims" and nz: "limit a \<noteq> 0"
  shows "sent (main w a) =
           map (\<lambda>k. build_request (endpoint_url a) (generate_sparql_query claims) (limit a)
                       (offset a + int k * limit a) (email a)) [0..<20]
     \<and> length (sent (main w a)) = 20
     \<and> (\<forall>k < 20. url (sent (main w a) ! k) = endpoint_url a
          \<and> params (sent (main w a) ! k) =
              [(''query'', generate_sparql_query claims @ '' LIMIT '' @ str_int (limit a)
                  @ '' OFFSET '' @ str_int (offset a + int k * limit a)),
               (''format'', ''json'')])"
proof -
  have sn: "sent (main w a) =
           map (\<lambda>k. build_request (endpoint_url a) (generate_sparql_query claims) (limit a)
                       (offset a + int k * limit a) (email a)) [0..<20]"
    by (simp only: main_effects(1) main_body_sent(1) [OF rd nz])
  have each: "url (sent (main w a) ! k) = endpoint_url a
          \<and> params (sent (main w a) ! k) =
              [(''query'', generate_sparql_query claims @ '' LIMIT '' @ str_int (limit a)
                  @ '' OFFSET '' @ str_int (offset a + int k * limit a)),
               (''format'', ''json'')]" if "k < 20" for k
    using that by (simp add: sn build_request_def Let_def del: upt.simps)
  show ?thesis using sn each by (simp del: upt.simps)
qed

text \<open>
  C2, at the default limit and offset, with an endpoint that never answers.
\<close>

theorem fetch_dispatches_twenty_witness:
  "read_file offline_world (input_file example_args) = Inr example_claims
   \<and> limit example_args \<noteq> 0
   \<and> length (sent (main offline_world example_args)) = 20
   \<and> params (sent (main offline_world example_args) ! 1) =
       [(''query'', generate_sparql_query example_claims @ '' LIMIT 10000 OFFSET 10000''),
        (''format'', ''json'')]"
proof -
  have rd: "read_file offline_world (input_file example_args) = Inr example_claims"
    by (simp add: offline_world_def)
  have nz: "limit example_args \<noteq> 0"
    by (simp add: example_args_def)
  have s1: "str_int 10000 = ''10000''"
    by (simp add: str_int_def str_nat.simps digit_char_def)
  have off1: "offset example_args = 0"
    and lim: "limit example_args = 10000"
    by (simp_all add: example_args_def)
  note t = fetch_dispatches_twenty [OF rd nz]
  from t have len: "length (sent (main offline_world example_args)) = 20"
    by blast
  have p1: "params (sent (main offline_world example_args) ! 1) =
       [(''query'', generate_sparql_query example_claims @ '' LIMIT 10000 OFFSET 10000''),
        (''format'', ''json'')]"
    using t [THEN conjunct2, THEN conjunct2, rule_format, of 1]
    by (simp add: off1 lim s1)
  show ?thesis using rd nz len p1 by blast
qed

text \<open>
  C2 as stated fails at the limit 0: \<^verbatim>\<open>range\<close> raises \<^verbatim>\<open>ValueError\<close> for a zero step and no
  request is sent.
\<close>

theorem zero_limit_dispatches_nothing:
  "sent (main offline_world (example_args\<lparr>limit := 0\<rparr>)) = []"
  by (simp add: main_def main_body_def parse_json_claims_def py_range_def Let_def
      offline_world_def example_args_def)

text \<open>
  C5, as amended. In a run whose claims file loaded, with a non-zero limit: a worker whose
  fetch or whose transform raises logs the error with its offset and returns the empty
  dictionary, which adds nothing to the aggregate; the log of the run holds that line for
  every one of the 20 pages that failed; whatever the endpoint and the file system do, no
  exception leaves \<^verbatim>\<open>main\<close>, the pool is closed and the exit code is 0; and when the output
  directory can be made and the claims' files can be opened, one file is written per claim of
  the spec, at the claim's path.
\<close>

theorem worker_failure_absorbed:
  assumes rd: "read_file w (input_file a) = Inr claims" and nz: "limit a \<noteq> 0"
  shows "(\<forall>off e sn lg.
            execute_sparql_query (net w) (endpoint_url a) (generate_sparql_query claims)
              (limit a) off (email a) = (sn, lg, Inl e)
            \<longrightarrow> worker (net w) (endpoint_url a) (generate_sparql_query claims) claims
                  (limit a) off (email a)
                = (sn, lg @ [LogError (''Error in worker (offset '' @ str_int off @ '')'') e], []))
     \<and> (\<forall>off e sn lg results.
            execute_sparql_query (net w) (endpoint_url a) (generate_sparql_query claims)
              (limit a) off (email a) = (sn, lg, Inr results)
            \<and> process_wikidata_results results claims = Inl e
            \<longrightarrow> worker (net w) (endpoint_url a) (generate_sparql_query claims) claims
                  (limit a) off (email a)
                = (sn, lg @ [LogError (''Error in worker (offset '' @ str_int off @ '')'') e], []))
     \<and> (\<forall>d :: page_data. dict_update d [] = d)
     \<and> (\<forall>k < 20. \<forall>e.
            snd (snd (execute_sparql_query (net w) (endpoint_url a)
              (generate_sparql_query claims) (limit a) (offset a + int k * limit a) (email a)))
              = Inl e
            \<or> (\<exists>results.
                 snd (snd (execute_sparql_query (net w) (endpoint_url a)
                   (generate_sparql_query claims) (limit a) (offset a + int k * limit a)
                   (email a))) = Inr results
                 \<and> process_wikidata_results results claims = Inl e)
            \<longrightarrow> LogError (''Error in worker (offset '' @ str_int (offset a + int k * limit a)
                              @ '')'') e
                  \<in> set (logged (main w a)))
     \<and> uncaught (main w a) = None
     \<and> exit_code (main w a) = 0
     \<and> pool (main w a) = Closed
     \<and> (emitter_can_write (mkdir w) (open_w w) (output_directory a) claims
          \<longrightarrow> map fst (written (main w a)) =
                map (\<lambda>c. csv_path (output_directory a) (snd c)) claims)"
proof -
  have absorbed: "LogError (''Error in worker (offset '' @ str_int (offset a + int k * limit a)
                              @ '')'') e
                  \<in> set (logged (main w a))"
    if k: "k < 20"
      and failed: "snd (snd (execute_sparql_query (net w) (endpoint_url a)
              (generate_sparql_query claims) (limit a) (offset a + int k * limit a) (email a)))
              = Inl e
            \<or> (\<exists>results.
                 snd (snd (execute_sparql_query (net w) (endpoint_url a)
                   (generate_sparql_query claims) (limit a) (offset a + int k * limit a)
                   (email a))) = Inr results
                 \<and> process_wikidata_results results claims = Inl e)"
    for k e
  proof -
    obtain sn lg res where
      ex: "execute_sparql_query (net w) (endpoint_url a) (generate_sparql_query claims)
             (limit a) (offset a + int k * limit a) (email a) = (sn, lg, res)"
      by (metis surj_pair)
    have "LogError (''Error in worker (offset '' @ str_int (offset a + int k * limit a)
                              @ '')'') e
          \<in> set (fst (snd (worker (net w) (endpoint_url a) (generate_sparql_query claims) claims
                  (limit a) (offset a + int k * limit a) (email a))))"
      using failed by (auto simp: worker_def ex)
    moreover have "set (fst (snd (worker (net w) (endpoint_url a) (generate_sparql_query claims)
                  claims (limit a) (offset a + int k * limit a) (email a))))
         \<subseteq> set (logged (main_body w a))"
      by (rule main_body_worker_logs [OF rd nz k])
    ultimately show ?thesis by (auto simp: main_effects(5))
  qed
  have files: "map fst (written (main w a)) =
      map (\<lambda>c. csv_path (output_directory a) (snd c)) claims"
    if fs: "emitter_can_write (mkdir w) (open_w w) (output_directory a) claims"
  proof -
    have "written (main w a) =
        map (\<lambda>c. (csv_path (output_directory a) (snd c),
                  [Some ''ROR ID'', Some ''Wikidata ID'', Some (snd c)]
                    # map (csv_row (snd c))
                        (filter (\<lambda>entry. truthy (cell_of (snd entry) (snd c)))
                           (merge_pages (map (\<lambda>r. snd (snd r))
                              (map (\<lambda>k. worker (net w) (endpoint_url a)
                                      (generate_sparql_query claims) claims (limit a)
                                      (offset a + int k * limit a) (email a)) [0..<20]))))))
          claims"
      by (simp only: main_effects(2) main_body_written [OF rd nz]
          generate_csv_files_written [OF run_aggregate_complete fs] fst_conv)
    then show ?thesis by (simp add: comp_def del: upt.simps)
  qed
  have p: "pool (main w a) = Closed"
    by (simp only: main_effects(3) main_body_sent(2) [OF rd nz])
  show ?thesis
    using absorbed files
    by (simp add: worker_def dict_update_def p main_effects(4) exit_code_def)
qed

text \<open>
  C5, with an endpoint that never answers and a file system that accepts every call: every
  worker returns the empty dictionary, its line is in the log of the run, and both files are
  still written.
\<close>

theorem worker_failure_absorbed_witness:
  "read_file offline_world (input_file example_args) = Inr example_claims
   \<and> limit example_args \<noteq> 0
   \<and> emitter_can_write (mkdir offline_world) (open_w offline_world)
        (output_directory example_args) example_claims
   \<and> worker (net offline_world) (endpoint_url example_args)
        (generate_sparql_query example_claims) example_claims (limit example_args) 0
        (email example_args) =
       ([build_request (endpoint_url example_args) (generate_sparql_query example_claims)
           (limit example_args) 0 (email example_args)],
        [LogError ''Error executing SPARQL query'' (RequestException ''connection refused''),
         LogError ''Error in worker (offset 0)'' (RequestException ''connection refused'')],
        [])
   \<and> LogError ''Error in worker (offset 0)'' (RequestException ''connection refused'')
        \<in> set (logged (main offline_world example_args))
   \<and> uncaught (main offline_world example_args) = None
   \<and> exit_code (main offline_world example_args) = 0
   \<and> map fst (written (main offline_world example_args)) =
       [''ror_wikidata_claims/website_mapping.csv'', ''ror_wikidata_claims/grid_mapping.csv'']"
proof -
  have rd: "read_file offline_world (input_file example_args) = Inr example_claims"
    by (simp add: offline_world_def)
  have nz: "limit example_args \<noteq> 0"
    by (simp add: example_args_def)
  have fs: "emitter_can_write (mkdir offline_world) (open_w offline_world)
        (output_directory example_args) example_claims"
    by (simp add: emitter_can_write_def makedirs_def offline_world_def example_args_def)
  note t = worker_failure_absorbed [OF rd nz]
  have s0: "str_int 0 = ''0''"
    by (simp add: str_int_def str_nat.simps digit_char_def)
  have ex: "execute_sparql_query (net offline_world) (endpoint_url example_args)
              (generate_sparql_query example_claims) (limit example_args) 0 (email example_args) =
      ([build_request (endpoint_url example_args) (generate_sparql_query example_claims)
           (limit example_args) 0 (email example_args)],
       [LogError ''Error executing SPARQL query'' (RequestException ''connection refused'')],
       Inl (RequestException ''connection refused''))"
    by (simp add: execute_sparql_query_def read_bindings_def offline_world_def Let_def)
  have w: "worker (net offline_world) (endpoint_url example_args)
        (generate_sparql_query example_claims) example_claims (limit example_args) 0
        (email example_args) =
       ([build_request (endpoint_url example_args) (generate_sparql_query example_claims)
           (limit example_args) 0 (email example_args)],
        [LogError ''Error executing SPARQL query'' (RequestException ''connection refused''),
         LogError ''Error in worker (offset 0)'' (RequestException ''connection refused'')],
        [])"
    using t [THEN conjunct1, rule_format, OF ex] by (simp add: s0)
  have off0: "offset example_args + int 0 * limit example_args = 0"
    by (simp add: example_args_def)
  have "snd (snd (execute_sparql_query (net offline_world) (endpoint_url example_args)
              (generate_sparql_query example_claims) (limit example_args)
              (offset example_args + int 0 * limit example_args) (email example_args)))
          = Inl (RequestException ''connection refused'')"
    by (simp only: off0 ex snd_conv)
  then have failed: "snd (snd (execute_sparql_query (net offline_world)
              (endpoint_url example_args) (generate_sparql_query example_claims)
              (limit example_args) (offset example_args + int 0 * limit example_args)
              (email example_args)))
          = Inl (RequestException ''connection refused'')
        \<or> (\<exists>results. snd (snd (execute_sparql_query (net offline_world)
              (endpoint_url example_args) (generate_sparql_query example_claims)
              (limit example_args) (offset example_args + int 0 * limit example_args)
              (email example_args))) = Inr results
            \<and> process_wikidata_results results example_claims
                = Inl (RequestException ''connection refused''))"
    by (rule disjI1)
  have zero: "(0::nat) < 20" by simp
  have "LogError (''Error in worker (offset ''
          @ str_int (offset example_args + int 0 * limit example_args) @ '')'')
          (RequestException ''connection refused'')
        \<in> set (logged (main offline_world example_args))"
    by (rule t [THEN conjunct2, THEN conjunct2, THEN conjunct2, THEN conjunct1, rule_format,
          OF zero failed])
  then have line: "LogError ''Error in worker (offset 0)'' (RequestException ''connection refused'')
        \<in> set (logged (main offline_world example_args))"
    by (simp only: off0 s0) simp
  have paths: "map fst (written (main offline_world example_args)) =
       [''ror_wikidata_claims/website_mapping.csv'', ''ror_wikidata_claims/grid_mapping.csv'']"
    using t fs by (simp add: example_claims_def example_args_def csv_path_def path_join_def)
  from t have u: "uncaught (main offline_world example_args) = None"
    and x: "exit_code (main offline_world example_args) = 0"
    by blast+
  show ?thesis using rd nz fs w line u x paths by blast
qed

text \<open>
  C5 as stated fails: with the empty output directory the 20 requests are sent, every worker
  fails and is absorbed, and then \<^verbatim>\<open>os.makedirs\<close> raises: the run ends normally but writes no
  file for the two claims of the spec.
\<close>

theorem no_directory_no_files:
  "length (sent (main offline_world (example_args\<lparr>output_directory := []\<rparr>))) = 20
   \<and> written (main offline_world (example_args\<lparr>output_directory := []\<rparr>)) = []
   \<and> uncaught (main offline_world (example_args\<lparr>output_directory := []\<rparr>)) = None
   \<and> length example_claims = 2"
proof -
  have rd: "read_file offline_world (input_file (example_args\<lparr>output_directory := []\<rparr>))
      = Inr example_claims"
    by (simp add: offline_world_def)
  have nz: "limit (example_args\<lparr>output_directory := []\<rparr>) \<noteq> 0"
    by (simp add: example_args_def)
  have mk: "makedirs (mkdir offline_world)
      (output_directory (example_args\<lparr>output_directory := []\<rparr>))
      = Some (IOError ''FileNotFoundError'')"
    by (simp add: makedirs_def)
  have "length (sent (main offline_world (example_args\<lparr>output_directory := []\<rparr>))) = 20"
    by (simp only: main_effects(1) main_body_sent(1) [OF rd nz] length_map length_upt)
  moreover have "written (main offline_world (example_args\<lparr>output_directory := []\<rparr>)) = []"
    by (simp only: main_effects(2) main_body_written [OF rd nz]
        generate_csv_files_no_directory [OF mk] fst_conv)
  ultimately show ?thesis
    by (simp add: main_effects(4) example_claims_def)
qed

text \<open>
  C8, as amended. If reading the claims file fails with \<^verbatim>\<open>IOError\<close> or parsing it fails with
  \<^verbatim>\<open>json.JSONDecodeError\<close>, the loader logs the error and raises it again; any other exception of
  the load passes the loader unlogged. Whatever the load raises, it reaches \<^verbatim>\<open>main\<close>: no
  request is sent, no file is written and no pool is created; the top-level handler logs the
  error, no exception leaves \<^verbatim>\<open>main\<close> and the exit code is 0.
\<close>

theorem load_failure_stops_run:
  assumes rd: "read_file w (input_file a) = Inl e"
  shows "(\<forall>msg. e = JSONDecodeError msg \<longrightarrow>
            parse_json_claims (read_file w) (input_file a) =
              ([LogError ''Error parsing JSON file'' e], Inl e)
          \<and> logged (main w a) =
              [LogError ''Error parsing JSON file'' e, LogError ''An error occurred'' e])
     \<and> (\<forall>msg. e = IOError msg \<longrightarrow>
            parse_json_claims (read_file w) (input_file a) =
              ([LogError ''Error reading file'' e], Inl e)
          \<and> logged (main w a) =
              [LogError ''Error reading file'' e, LogError ''An error occurred'' e])
     \<and> ((\<forall>msg. e \<noteq> JSONDecodeError msg) \<and> (\<forall>msg. e \<noteq> IOError msg) \<longrightarrow>
            parse_json_claims (read_file w) (input_file a) = ([], Inl e)
          \<and> logged (main w a) = [LogError ''An error occurred'' e])
     \<and> snd (parse_json_claims (read_file w) (input_file a)) = Inl e
     \<and> sent (main w a) = []
     \<and> written (main w a) = []
     \<and> pool (main w a) = NotCreated
     \<and> uncaught (main w a) = None
     \<and> exit_code (main w a) = 0"
proof -
  have raised: "snd (parse_json_claims (read_file w) (input_file a)) = Inl e"
    using rd by (cases e) (simp_all add: parse_json_claims_def)
  obtain lg where p: "parse_json_claims (read_file w) (input_file a) = (lg, Inl e)"
    using raised by (cases "parse_json_claims (read_file w) (input_file a)") simp
  have body: "main_body w a =
      \<lparr>sent = [], logged = lg, written = [], pool = NotCreated, uncaught = Some e\<rparr>"
    by (simp add: main_body_def p)
  have m: "main w a =
      \<lparr>sent = [], logged = lg @ [LogError ''An error occurred'' e], written = [],
       pool = NotCreated, uncaught = None\<rparr>"
    by (simp add: main_def body)
  have json: "lg = [LogError ''Error parsing JSON file'' e]" if "e = JSONDecodeError msg" for msg
    using rd p that by (simp add: parse_json_claims_def)
  have io: "lg = [LogError ''Error reading file'' e]" if "e = IOError msg" for msg
    using rd p that by (simp add: parse_json_claims_def)
  have other: "lg = []" if "\<forall>msg. e \<noteq> JSONDecodeError msg" "\<forall>msg. e \<noteq> IOError msg"
    using rd p that by (cases e) (simp_all add: parse_json_claims_def)
  show ?thesis
    using json io other by (simp add: m p exit_code_def)
qed

text \<open>
  C8, at a claims file that does not exist.
\<close>

theorem load_failure_stops_run_witness:
  "read_file unreadable_world (input_file example_args) = Inl (IOError ''No such file or directory'')
   \<and> parse_json_claims (read_file unreadable_world) (input_file example_args) =
       ([LogError ''Error reading file'' (IOError ''No such file or directory'')],
        Inl (IOError ''No such file or directory''))
   \<and> sent (main unreadable_world example_args) = []
   \<and> written (main unreadable_world example_args) = []
   \<and> logged (main unreadable_world example_args) =
       [LogError ''Error reading file'' (IOError ''No such file or directory''),
        LogError ''An error occurred'' (IOError ''No such file or directory'')]
   \<and> exit_code (main unreadable_world example_args) = 0"
proof -
  have rd: "read_file unreadable_world (input_file example_args) =
      Inl (IOError ''No such file or directory'')"
    by (simp add: unreadable_world_def)
  show ?thesis
    using rd load_failure_stops_run [OF rd] by simp
qed

text \<open>
  C8 as stated fails: for a claims file that is not valid UTF-8, reading raises
  \<^verbatim>\<open>UnicodeDecodeError\<close>, a \<^verbatim>\<open>ValueError\<close> that neither handler of the loader catches: the loader
  logs nothing, and the only line of the log is the top-level handler's.
\<close>

theorem undecodable_file_not_logged_by_loader:
  "fst (parse_json_claims (read_file undecodable_world) (input_file example_args)) = []
   \<and> snd (parse_json_claims (read_file undecodable_world) (input_file example_args)) =
       Inl (ValueError ''UnicodeDecodeError'')
   \<and> logged (main undecodable_world example_args) =
       [LogError ''An error occurred'' (ValueError ''UnicodeDecodeError'')]"
  by (simp add: parse_json_claims_def main_def main_body_def undecodable_world_def)

end
